theory Spec2Isabelle
  imports Main
begin

section \<open>Strings as the import service uses them\<close>

text \<open>
  Strings are lists of 8-bit characters read as the code units below 256 (ASCII and
  Latin-1). The white space of JavaScript's \<^verbatim>\<open>trim\<close> and of the regular-expression
  class \<^verbatim>\<open>\s\<close> is, in that range, tab, line feed, vertical tab, form feed, carriage
  return, space and the no-break space. \<^verbatim>\<open>toLowerCase\<close> maps, in that range, the
  letters A to Z and the Latin-1 capitals 0xC0 to 0xDE (the multiplication sign 0xD7
  apart) to the character 32 places further on, and leaves every other character.
\<close>

definition isSpace :: "char \<Rightarrow> bool" where
  "isSpace c = (c \<in> set [CHR 0x09, CHR 0x0A, CHR 0x0B, CHR 0x0C, CHR 0x0D, CHR 0x20, CHR 0xA0])"

definition isDigit :: "char \<Rightarrow> bool" where
  "isDigit c = (c \<in> set ''0123456789'')"

definition upperLetters :: string where
  "upperLetters = ''ABCDEFGHIJKLMNOPQRSTUVWXYZ'' @
       [CHR 0xC0, CHR 0xC1, CHR 0xC2, CHR 0xC3, CHR 0xC4, CHR 0xC5,
        CHR 0xC6, CHR 0xC7, CHR 0xC8, CHR 0xC9, CHR 0xCA, CHR 0xCB,
        CHR 0xCC, CHR 0xCD, CHR 0xCE, CHR 0xCF, CHR 0xD0, CHR 0xD1,
        CHR 0xD2, CHR 0xD3, CHR 0xD4, CHR 0xD5, CHR 0xD6, CHR 0xD8,
        CHR 0xD9, CHR 0xDA, CHR 0xDB, CHR 0xDC, CHR 0xDD, CHR 0xDE]"

definition lowerLetters :: string where
  "lowerLetters = ''abcdefghijklmnopqrstuvwxyz'' @
       [CHR 0xE0, CHR 0xE1, CHR 0xE2, CHR 0xE3, CHR 0xE4, CHR 0xE5,
        CHR 0xE6, CHR 0xE7, CHR 0xE8, CHR 0xE9, CHR 0xEA, CHR 0xEB,
        CHR 0xEC, CHR 0xED, CHR 0xEE, CHR 0xEF, CHR 0xF0, CHR 0xF1,
        CHR 0xF2, CHR 0xF3, CHR 0xF4, CHR 0xF5, CHR 0xF6, CHR 0xF8,
        CHR 0xF9, CHR 0xFA, CHR 0xFB, CHR 0xFC, CHR 0xFD, CHR 0xFE]"

definition toLowerChar :: "char \<Rightarrow> char" where
  "toLowerChar c = (case map_of (zip upperLetters lowerLetters) c of Some d \<Rightarrow> d | None \<Rightarrow> c)"

definition toLowerCase :: "string \<Rightarrow> string" where
  "toLowerCase s = map toLowerChar s"

definition trimStart :: "string \<Rightarrow> string" where
  "trimStart s = dropWhile isSpace s"

definition trimEnd :: "string \<Rightarrow> string" where
  "trimEnd s = rev (dropWhile isSpace (rev s))"

definition trim :: "string \<Rightarrow> string" where
  "trim s = trimEnd (trimStart s)"

text \<open>\<^verbatim>\<open>s.split(',')\<close>: the pieces between the separators, at least one piece.\<close>

fun split :: "char \<Rightarrow> string \<Rightarrow> string list" where
  "split sep [] = [[]]"
| "split sep (c # cs) =
     (if c = sep then [] # split sep cs
      else (case split sep cs of p # ps \<Rightarrow> (c # p) # ps | [] \<Rightarrow> [[c]]))"

text \<open>
  JavaScript truthiness of an optional string: \<^verbatim>\<open>undefined\<close> and the empty string are
  falsy. \<open>orUndefined\<close> is \<^verbatim>\<open>x || undefined\<close> (and \<^verbatim>\<open>x || null\<close>), \<open>orEmpty\<close> is \<^verbatim>\<open>x || ''\<close>.
\<close>

definition truthy :: "string option \<Rightarrow> bool" where
  "truthy x = (case x of None \<Rightarrow> False | Some s \<Rightarrow> s \<noteq> [])"

definition orUndefined :: "string option \<Rightarrow> string option" where
  "orUndefined x = (if truthy x then x else None)"

definition orEmpty :: "string option \<Rightarrow> string" where
  "orEmpty x = (case x of None \<Rightarrow> [] | Some s \<Rightarrow> s)"

section \<open>Regular expressions of the validators\<close>

text \<open>
  The two patterns of the service are anchored at both ends and use only bracket
  classes, concatenation, \<^verbatim>\<open>?\<close>, \<^verbatim>\<open>+\<close> and \<^verbatim>\<open>{10,}\<close>. They are matched by derivatives.
\<close>

datatype cclass = Lit char | Digit | Space

datatype regex =
    Never
  | Empty
  | OneOf "cclass list"
  | NoneOf "cclass list"
  | Seq regex regex
  | Alt regex regex
  | Opt regex
  | AtLeast nat regex

fun inClass :: "char \<Rightarrow> cclass \<Rightarrow> bool" where
  "inClass c (Lit d) = (c = d)"
| "inClass c Digit = isDigit c"
| "inClass c Space = isSpace c"

fun nullable :: "regex \<Rightarrow> bool" where
  "nullable Never = False"
| "nullable Empty = True"
| "nullable (OneOf cs) = False"
| "nullable (NoneOf cs) = False"
| "nullable (Seq a b) = (nullable a \<and> nullable b)"
| "nullable (Alt a b) = (nullable a \<or> nullable b)"
| "nullable (Opt a) = True"
| "nullable (AtLeast n a) = (n = 0 \<or> nullable a)"

fun seq :: "regex \<Rightarrow> regex \<Rightarrow> regex" where
  "seq Never b = Never"
| "seq Empty b = b"
| "seq a b = Seq a b"

fun alt :: "regex \<Rightarrow> regex \<Rightarrow> regex" where
  "alt Never b = b"
| "alt a Never = a"
| "alt a b = Alt a b"

fun deriv :: "char \<Rightarrow> regex \<Rightarrow> regex" where
  "deriv c Never = Never"
| "deriv c Empty = Never"
| "deriv c (OneOf cs) = (if list_ex (inClass c) cs then Empty else Never)"
| "deriv c (NoneOf cs) = (if list_ex (inClass c) cs then Never else Empty)"
| "deriv c (Seq a b) =
     (if nullable a then alt (seq (deriv c a) b) (deriv c b) else seq (deriv c a) b)"
| "deriv c (Alt a b) = alt (deriv c a) (deriv c b)"
| "deriv c (Opt a) = deriv c a"
| "deriv c (AtLeast n a) = seq (deriv c a) (AtLeast (n - 1) a)"

fun test :: "regex \<Rightarrow> string \<Rightarrow> bool" where
  "test r [] = nullable r"
| "test r (c # cs) = test (deriv c r) cs"

section \<open>Rows and row errors\<close>

text \<open>
  A row's role is \<^verbatim>\<open>'member'\<close> or \<^verbatim>\<open>'group_leader'\<close>; the role column of a member
  can also hold \<^verbatim>\<open>'admin'\<close>. \<open>roleColumn\<close> is the value a row's role is stored as.
\<close>

datatype row_role = RowMember | RowGroupLeader

datatype member_role = RoleAdmin | RoleMember | RoleGroupLeader

fun roleColumn :: "row_role \<Rightarrow> member_role" where
  "roleColumn RowMember = RoleMember"
| "roleColumn RowGroupLeader = RoleGroupLeader"

record excel_row =
  firstName :: string
  lastName :: string
  email :: string
  phone :: string
  dateOfBirth :: "string option"
  gender :: "string option"
  bloodGroup :: "string option"
  address :: "string option"
  emergencyContactName :: "string option"
  emergencyContactPhone :: "string option"
  familyName :: string
  headOfFamily :: bool
  groupMemberships :: "string option"
  role :: "row_role option"
  rowNotes :: "string option"

text \<open>
  The \<^verbatim>\<open>data\<close> payload of an error entry: the row itself for row errors, the empty
  object or the row count for the entries written when a submission is refused.
\<close>

datatype error_data = RowData excel_row | NoData | TotalRows nat

record import_error =
  row :: nat
  error :: string
  data :: error_data

section \<open>The field validators\<close>

text \<open>\<^verbatim>\<open>/^[^\s@]+@[^\s@]+\.[^\s@]+$/\<close>\<close>

definition emailRegex :: regex where
  "emailRegex =
     Seq (AtLeast 1 (NoneOf [Space, Lit CHR ''@'']))
    (Seq (OneOf [Lit CHR ''@''])
    (Seq (AtLeast 1 (NoneOf [Space, Lit CHR ''@'']))
    (Seq (OneOf [Lit CHR ''.''])
         (AtLeast 1 (NoneOf [Space, Lit CHR ''@''])))))"

definition validateEmail :: "string \<Rightarrow> bool" where
  "validateEmail e = test emailRegex e"

text \<open>\<^verbatim>\<open>/^[\+]?[\d\s\-\(\)]{10,}$/\<close>\<close>

definition phoneRegex :: regex where
  "phoneRegex =
     Seq (Opt (OneOf [Lit CHR ''+'']))
         (AtLeast 10 (OneOf [Digit, Space, Lit CHR ''-'', Lit CHR ''('', Lit CHR '')'']))"

definition validatePhone :: "string \<Rightarrow> bool" where
  "validatePhone p = test phoneRegex p"

definition validGroups :: "string list" where
  "validGroups = [''A+'', ''B+'', ''AB+'', ''O+'', ''A-'', ''B-'', ''AB-'', ''O-'']"

definition validateBloodGroup :: "string option \<Rightarrow> bool" where
  "validateBloodGroup bg = (if \<not> truthy bg then True else the bg \<in> set validGroups)"

text \<open>
  \<^verbatim>\<open>new Date(dateStr)\<close> is the date parser of the JavaScript runtime, which is not part of
  the repository: \<open>dateParses\<close> says for which strings it yields a valid date, and is a
  parameter of everything that validates.
\<close>

definition validateDate :: "(string \<Rightarrow> bool) \<Rightarrow> string option \<Rightarrow> bool" where
  "validateDate dateParses d = (if \<not> truthy d then True else dateParses (the d))"

definition validGenders :: "string list" where
  "validGenders = [''Male'', ''Female'', ''Other'']"

definition rowError :: "nat \<Rightarrow> string \<Rightarrow> excel_row \<Rightarrow> import_error" where
  "rowError n msg r = \<lparr>row = n, error = msg, data = RowData r\<rparr>"

definition validateRow :: "(string \<Rightarrow> bool) \<Rightarrow> excel_row \<Rightarrow> nat \<Rightarrow> import_error option" where
  "validateRow dateParses r rowNumber =
     (if firstName r = [] then Some (rowError rowNumber ''First name is required'' r)
      else if lastName r = [] then Some (rowError rowNumber ''Last name is required'' r)
      else if email r = [] then Some (rowError rowNumber ''Email is required'' r)
      else if phone r = [] then Some (rowError rowNumber ''Phone is required'' r)
      else if familyName r = [] then Some (rowError rowNumber ''Family name is required'' r)
      else if \<not> validateEmail (email r) then Some (rowError rowNumber ''Invalid email format'' r)
      else if \<not> validatePhone (phone r)
        then Some (rowError rowNumber ''Invalid phone number format'' r)
      else if \<not> validateBloodGroup (bloodGroup r)
        then Some (rowError rowNumber ''Invalid blood group'' r)
      else if \<not> validateDate dateParses (dateOfBirth r)
        then Some (rowError rowNumber ''Invalid date of birth format'' r)
      else if truthy (gender r) \<and> the (gender r) \<notin> set validGenders
        then Some (rowError rowNumber ''Invalid gender. Must be Male, Female, or Other'' r)
      else None)"

section \<open>Parsing the worksheet\<close>

text \<open>
  A cell is absent or has a value, of which the parser only uses the \<^verbatim>\<open>toString()\<close>
  text. The values of a worksheet row are indexed from 1 (index 0 is never filled);
  a read past the end of the array is \<^verbatim>\<open>undefined\<close>. \<^verbatim>\<open>eachRow\<close> visits the rows that
  have values, each with its row number in the sheet.
\<close>

type_synonym cell = "string option"

type_synonym worksheet = "(nat \<times> cell list) list"

datatype excel_file = Unreadable string | Workbook "worksheet option"

definition cellText :: "cell list \<Rightarrow> nat \<Rightarrow> string option" where
  "cellText cells k = (if k < length cells then cells ! k else None)"

definition parseRow :: "cell list \<Rightarrow> excel_row" where
  "parseRow cells =
     \<lparr>firstName = orEmpty (map_option trim (cellText cells 1)),
      lastName = orEmpty (map_option trim (cellText cells 2)),
      email = orEmpty (map_option (toLowerCase \<circ> trim) (cellText cells 3)),
      phone = orEmpty (map_option trim (cellText cells 4)),
      dateOfBirth = orUndefined (map_option trim (cellText cells 5)),
      gender = orUndefined (map_option trim (cellText cells 6)),
      bloodGroup = orUndefined (map_option trim (cellText cells 7)),
      address = orUndefined (map_option trim (cellText cells 8)),
      emergencyContactName = orUndefined (map_option trim (cellText cells 9)),
      emergencyContactPhone = orUndefined (map_option trim (cellText cells 10)),
      familyName = orEmpty (map_option trim (cellText cells 11)),
      headOfFamily =
        (orEmpty (map_option (trim \<circ> toLowerCase) (cellText cells 12))
           \<in> set [''yes'', ''y'', ''true'', ''1'']),
      groupMemberships = orUndefined (map_option trim (cellText cells 13)),
      role =
        (if map_option (toLowerCase \<circ> trim) (cellText cells 14) = Some ''group_leader''
         then Some RowGroupLeader else Some RowMember),
      rowNotes = orUndefined (map_option trim (cellText cells 15))\<rparr>"

definition hasRequired :: "excel_row \<Rightarrow> bool" where
  "hasRequired r =
     (firstName r \<noteq> [] \<and> lastName r \<noteq> [] \<and> email r \<noteq> [] \<and> phone r \<noteq> [] \<and> familyName r \<noteq> [])"

fun eachRow :: "worksheet \<Rightarrow> excel_row list" where
  "eachRow [] = []"
| "eachRow ((rowNumber, cells) # rest) =
     (if rowNumber = 1 then eachRow rest
      else if hasRequired (parseRow cells) then parseRow cells # eachRow rest
      else eachRow rest)"

definition parseExcelFile :: "excel_file \<Rightarrow> string + excel_row list" where
  "parseExcelFile f =
     (case f of
        Unreadable msg \<Rightarrow> Inl msg
      | Workbook None \<Rightarrow> Inl ''No worksheet found in Excel file''
      | Workbook (Some ws) \<Rightarrow> Inr (eachRow ws))"

section \<open>The database\<close>

text \<open>
  The database is reached through a query interface that is outside the repository
  (tables as in the schema migration). It is modelled as an explicit store: one list of
  rows per table. Every request takes its outcome from \<open>responses\<close>, indexed by the
  number of requests made so far (\<open>tick\<close>): the request succeeds (\<open>Ok i\<close>, where \<open>i\<close> is
  the identifier the database assigns if a row is inserted), it comes back with an error
  object (\<open>Err\<close>), or the client call throws (\<open>Throw\<close>). An insert whose identifier is
  already in the table fails on the primary key. The case-insensitive pattern
  operator of the database is the parameter \<open>ilike\<close>. \<open>job_versions\<close> records every
  version of an \<^verbatim>\<open>import_jobs\<close> row that was ever persisted, in order: it is what a
  polling client can observe. Time stamps are the logical time \<open>tick\<close>.
\<close>

type_synonym ident = string

datatype response = Ok ident | Err string | Throw string

datatype 'a outcome = Val 'a | Exn string

record user_profile =
  user_id :: ident
  user_email :: "string option"
  first_name :: string
  last_name :: string
  user_phone :: "string option"
  date_of_birth :: "string option"
  user_gender :: "string option"
  blood_group :: "string option"
  user_address :: "string option"
  emergency_contact_name :: "string option"
  emergency_contact_phone :: "string option"
  user_role :: member_role
  family_id :: "ident option"

record family =
  family_ident :: ident
  family_name :: string
  head_of_family_id :: "ident option"
  family_address :: "string option"
  family_phone :: "string option"

record church_group =
  group_ident :: ident
  group_name :: string

datatype membership_status = MPending | MApproved | MRejected | MInactive

datatype membership_role = MMember | MAssistantLeader

record group_membership =
  membership_id :: ident
  group_id :: ident
  member_id :: ident
  membership_status :: membership_status
  membership_role :: membership_role

datatype job_status = Pending | Processing | Completed | Failed

record import_job =
  job_id :: ident
  filename :: string
  file_url :: string
  status :: job_status
  total_records :: nat
  processed_records :: nat
  successful_records :: nat
  failed_records :: nat
  error_log :: "import_error list option"
  created_by :: ident
  started_at :: "nat option"
  completed_at :: "nat option"

record store =
  user_profiles :: "user_profile list"
  families :: "family list"
  groups :: "church_group list"
  group_memberships :: "group_membership list"
  import_jobs :: "import_job list"
  job_versions :: "import_job list"
  responses :: "nat \<Rightarrow> response"
  ilike :: "string \<Rightarrow> string \<Rightarrow> bool"
  tick :: nat

definition request :: "store \<Rightarrow> response \<times> store" where
  "request s = (responses s (tick s), s\<lparr>tick := Suc (tick s)\<rparr>)"

text \<open>\<^verbatim>\<open>.single()\<close>: the row when the query yields exactly one, no data otherwise.\<close>

definition single :: "'a list \<Rightarrow> 'a option" where
  "single xs = (case xs of [x] \<Rightarrow> Some x | _ \<Rightarrow> None)"

definition duplicateKey :: string where
  "duplicateKey = ''duplicate key value violates unique constraint''"

definition notSingle :: string where
  "notSingle = ''JSON object requested, multiple (or no) rows returned''"

text \<open>\<^verbatim>\<open>from('groups').select('id, name')\<close>\<close>

definition selectGroups :: "store \<Rightarrow> church_group list option outcome \<times> store" where
  "selectGroups s =
     (case request s of
        (Ok i, s1) \<Rightarrow> (Val (Some (groups s1)), s1)
      | (Err m, s1) \<Rightarrow> (Val None, s1)
      | (Throw m, s1) \<Rightarrow> (Exn m, s1))"

text \<open>\<^verbatim>\<open>from('user_profiles').select(..).or(`email.eq.E,phone.eq.P`).single()\<close>\<close>

definition selectUser :: "string \<Rightarrow> string \<Rightarrow> store \<Rightarrow> user_profile option outcome \<times> store" where
  "selectUser e p s =
     (case request s of
        (Ok i, s1) \<Rightarrow>
          (Val (single (filter (\<lambda>u. user_email u = Some e \<or> user_phone u = Some p)
                          (user_profiles s1))), s1)
      | (Err m, s1) \<Rightarrow> (Val None, s1)
      | (Throw m, s1) \<Rightarrow> (Exn m, s1))"

text \<open>
  \<^verbatim>\<open>from('user_profiles').update(values).eq('id', uid).select().single()\<close>: the result
  is the error, if any.
\<close>

definition updateUser ::
  "ident \<Rightarrow> (user_profile \<Rightarrow> user_profile) \<Rightarrow> store \<Rightarrow> string option outcome \<times> store" where
  "updateUser uid values s =
     (case request s of
        (Ok i, s1) \<Rightarrow>
          (Val (if length (filter (\<lambda>u. user_id u = uid) (user_profiles s1)) = 1
                then None else Some notSingle),
           s1\<lparr>user_profiles :=
                 map (\<lambda>u. if user_id u = uid then values u else u) (user_profiles s1)\<rparr>)
      | (Err m, s1) \<Rightarrow> (Val (Some m), s1)
      | (Throw m, s1) \<Rightarrow> (Exn m, s1))"

text \<open>\<^verbatim>\<open>from('user_profiles').insert(values).select().single()\<close>\<close>

definition insertUser ::
  "(user_profile \<Rightarrow> user_profile) \<Rightarrow> store \<Rightarrow> (string + user_profile) outcome \<times> store" where
  "insertUser values s =
     (case request s of
        (Ok i, s1) \<Rightarrow>
          (if i \<in> set (map user_id (user_profiles s1)) then (Val (Inl duplicateKey), s1)
           else
             (let newUser = values
                   \<lparr>user_id = i, user_email = None, first_name = [], last_name = [],
                    user_phone = None, date_of_birth = None, user_gender = None,
                    blood_group = None, user_address = None, emergency_contact_name = None,
                    emergency_contact_phone = None, user_role = RoleMember, family_id = None\<rparr>
              in (Val (Inr newUser), s1\<lparr>user_profiles := user_profiles s1 @ [newUser]\<rparr>)))
      | (Err m, s1) \<Rightarrow> (Val (Inl m), s1)
      | (Throw m, s1) \<Rightarrow> (Exn m, s1))"

text \<open>\<^verbatim>\<open>from('families').select('id').ilike('family_name', name).single()\<close>\<close>

definition selectFamily :: "string \<Rightarrow> store \<Rightarrow> family option outcome \<times> store" where
  "selectFamily name s =
     (case request s of
        (Ok i, s1) \<Rightarrow> (Val (single (filter (\<lambda>f. ilike s1 name (family_name f)) (families s1))), s1)
      | (Err m, s1) \<Rightarrow> (Val None, s1)
      | (Throw m, s1) \<Rightarrow> (Exn m, s1))"

text \<open>\<^verbatim>\<open>from('families').insert({family_name, address, phone}).select().single()\<close>\<close>

definition insertFamily ::
  "string \<Rightarrow> string option \<Rightarrow> string \<Rightarrow> store \<Rightarrow> (string + family) outcome \<times> store" where
  "insertFamily name addr ph s =
     (case request s of
        (Ok i, s1) \<Rightarrow>
          (if i \<in> set (map family_ident (families s1)) then (Val (Inl duplicateKey), s1)
           else
             (let newFamily =
                   \<lparr>family_ident = i, family_name = name, head_of_family_id = None,
                    family_address = addr, family_phone = Some ph\<rparr>
              in (Val (Inr newFamily), s1\<lparr>families := families s1 @ [newFamily]\<rparr>)))
      | (Err m, s1) \<Rightarrow> (Val (Inl m), s1)
      | (Throw m, s1) \<Rightarrow> (Exn m, s1))"

text \<open>\<^verbatim>\<open>from('user_profiles').update({ family_id }).eq('id', uid)\<close>\<close>

definition updateUserFamily :: "ident \<Rightarrow> ident \<Rightarrow> store \<Rightarrow> string option outcome \<times> store" where
  "updateUserFamily uid fid s =
     (case request s of
        (Ok i, s1) \<Rightarrow>
          (Val None,
           s1\<lparr>user_profiles :=
                 map (\<lambda>u. if user_id u = uid then u\<lparr>family_id := Some fid\<rparr> else u)
                   (user_profiles s1)\<rparr>)
      | (Err m, s1) \<Rightarrow> (Val (Some m), s1)
      | (Throw m, s1) \<Rightarrow> (Exn m, s1))"

text \<open>\<^verbatim>\<open>from('families').update({ head_of_family_id }).eq('id', fid)\<close>\<close>

definition updateFamilyHead :: "ident \<Rightarrow> ident \<Rightarrow> store \<Rightarrow> string option outcome \<times> store" where
  "updateFamilyHead fid uid s =
     (case request s of
        (Ok i, s1) \<Rightarrow>
          (Val None,
           s1\<lparr>families :=
                 map (\<lambda>f. if family_ident f = fid then f\<lparr>head_of_family_id := Some uid\<rparr> else f)
                   (families s1)\<rparr>)
      | (Err m, s1) \<Rightarrow> (Val (Some m), s1)
      | (Throw m, s1) \<Rightarrow> (Exn m, s1))"

text \<open>
  \<^verbatim>\<open>from('group_memberships').upsert({group_id, user_id, status: 'pending', role: 'member'},
  { onConflict: 'group_id,user_id' })\<close>: a row with the same pair is updated, otherwise
  a row is inserted.
\<close>

definition samePair :: "ident \<Rightarrow> ident \<Rightarrow> group_membership \<Rightarrow> bool" where
  "samePair gid uid m = (group_id m = gid \<and> member_id m = uid)"

definition upsertMembership :: "ident \<Rightarrow> ident \<Rightarrow> store \<Rightarrow> string option outcome \<times> store" where
  "upsertMembership gid uid s =
     (case request s of
        (Ok i, s1) \<Rightarrow>
          (if list_ex (samePair gid uid) (group_memberships s1) then
             (Val None,
              s1\<lparr>group_memberships :=
                    map (\<lambda>m. if samePair gid uid m
                              then m\<lparr>membership_status := MPending, membership_role := MMember\<rparr>
                              else m)
                      (group_memberships s1)\<rparr>)
           else if i \<in> set (map membership_id (group_memberships s1)) then
             (Val (Some duplicateKey), s1)
           else
             (Val None,
              s1\<lparr>group_memberships := group_memberships s1 @
                    [\<lparr>membership_id = i, group_id = gid, member_id = uid,
                      membership_status = MPending, membership_role = MMember\<rparr>]\<rparr>))
      | (Err m, s1) \<Rightarrow> (Val (Some m), s1)
      | (Throw m, s1) \<Rightarrow> (Exn m, s1))"

text \<open>
  \<^verbatim>\<open>from('import_jobs').insert({filename, file_url, status: 'pending', created_by})
  .select().single()\<close>; the other columns take their defaults.
\<close>

definition insertJob ::
  "string \<Rightarrow> string \<Rightarrow> ident \<Rightarrow> store \<Rightarrow> (string + import_job) outcome \<times> store" where
  "insertJob name url creator s =
     (case request s of
        (Ok i, s1) \<Rightarrow>
          (if i \<in> set (map job_id (import_jobs s1)) then (Val (Inl duplicateKey), s1)
           else
             (let importJob =
                   \<lparr>job_id = i, filename = name, file_url = url, status = Pending,
                    total_records = 0, processed_records = 0, successful_records = 0,
                    failed_records = 0, error_log = None, created_by = creator,
                    started_at = None, completed_at = None\<rparr>
              in (Val (Inr importJob),
                  s1\<lparr>import_jobs := import_jobs s1 @ [importJob],
                     job_versions := job_versions s1 @ [importJob]\<rparr>)))
      | (Err m, s1) \<Rightarrow> (Val (Inl m), s1)
      | (Throw m, s1) \<Rightarrow> (Exn m, s1))"

text \<open>\<^verbatim>\<open>from('import_jobs').update(values).eq('id', jobId)\<close>\<close>

definition updateJob ::
  "ident \<Rightarrow> (import_job \<Rightarrow> import_job) \<Rightarrow> store \<Rightarrow> string option outcome \<times> store" where
  "updateJob jobId values s =
     (case request s of
        (Ok i, s1) \<Rightarrow>
          (Val None,
           s1\<lparr>import_jobs :=
                 map (\<lambda>j. if job_id j = jobId then values j else j) (import_jobs s1),
              job_versions := job_versions s1 @
                 map values (filter (\<lambda>j. job_id j = jobId) (import_jobs s1))\<rparr>)
      | (Err m, s1) \<Rightarrow> (Val (Some m), s1)
      | (Throw m, s1) \<Rightarrow> (Exn m, s1))"

section \<open>The import run\<close>

text \<open>
  The local variables of \<^verbatim>\<open>processImport\<close>: the store it talks to, the error entries
  collected so far, the family memo and the two counters.
\<close>

record run =
  db :: store
  errors :: "import_error list"
  familyMap :: "string \<rightharpoonup> ident"
  processedCount :: nat
  successCount :: nat

text \<open>
  How a stage of the per-row \<^verbatim>\<open>try\<close> block ends: it goes on to the next stage, it
  executes \<^verbatim>\<open>continue\<close>, or it throws.
\<close>

datatype 'a step = Next 'a | Continue | Raised string

definition buildGroupMap :: "church_group list option \<Rightarrow> (string \<rightharpoonup> ident)" where
  "buildGroupMap gs =
     (case gs of
        None \<Rightarrow> Map.empty
      | Some xs \<Rightarrow> foldl (\<lambda>m g. m(toLowerCase (group_name g) \<mapsto> group_ident g)) Map.empty xs)"

text \<open>The column values written for a member, on update and on insert alike.\<close>

definition memberValues :: "excel_row \<Rightarrow> user_profile \<Rightarrow> user_profile" where
  "memberValues r u =
     u\<lparr>first_name := firstName r,
       last_name := lastName r,
       user_phone := Some (phone r),
       date_of_birth := orUndefined (dateOfBirth r),
       user_gender := orUndefined (gender r),
       blood_group := orUndefined (bloodGroup r),
       user_address := orUndefined (address r),
       emergency_contact_name := orUndefined (emergencyContactName r),
       emergency_contact_phone := orUndefined (emergencyContactPhone r),
       user_role := (case role r of Some x \<Rightarrow> roleColumn x | None \<Rightarrow> RoleMember)\<rparr>"

definition pushError :: "nat \<Rightarrow> string \<Rightarrow> excel_row \<Rightarrow> run \<Rightarrow> run" where
  "pushError rowNumber msg r rs = rs\<lparr>errors := errors rs @ [rowError rowNumber msg r]\<rparr>"

text \<open>Member resolution: look the member up by email or phone, update or create.\<close>

definition resolveMember :: "excel_row \<Rightarrow> nat \<Rightarrow> run \<Rightarrow> ident step \<times> run" where
  "resolveMember r rowNumber rs =
     (case selectUser (email r) (phone r) (db rs) of
        (Exn m, s1) \<Rightarrow> (Raised m, rs\<lparr>db := s1\<rparr>)
      | (Val (Some existingUser), s1) \<Rightarrow>
          (case updateUser (user_id existingUser) (memberValues r) s1 of
             (Exn m, s2) \<Rightarrow> (Raised m, rs\<lparr>db := s2\<rparr>)
           | (Val (Some msg), s2) \<Rightarrow>
               (Continue, pushError rowNumber (''Failed to update user: '' @ msg) r (rs\<lparr>db := s2\<rparr>))
           | (Val None, s2) \<Rightarrow> (Next (user_id existingUser), rs\<lparr>db := s2\<rparr>))
      | (Val None, s1) \<Rightarrow>
          (case insertUser (memberValues r) s1 of
             (Exn m, s2) \<Rightarrow> (Raised m, rs\<lparr>db := s2\<rparr>)
           | (Val (Inl msg), s2) \<Rightarrow>
               (Continue, pushError rowNumber (''Failed to create user: '' @ msg) r (rs\<lparr>db := s2\<rparr>))
           | (Val (Inr newUser), s2) \<Rightarrow> (Next (user_id newUser), rs\<lparr>db := s2\<rparr>)))"

text \<open>
  Family resolution: the memo first, then the stored families, then a new family; the
  identifier found is memoised when it is truthy.
\<close>

definition memoFamily :: "string \<Rightarrow> ident \<Rightarrow> run \<Rightarrow> run" where
  "memoFamily name familyId rs =
     (if familyId \<noteq> [] then rs\<lparr>familyMap := (familyMap rs)(toLowerCase name \<mapsto> familyId)\<rparr>
      else rs)"

definition resolveFamily :: "excel_row \<Rightarrow> nat \<Rightarrow> run \<Rightarrow> ident step \<times> run" where
  "resolveFamily r rowNumber rs =
     (if truthy (familyMap rs (toLowerCase (familyName r)))
      then (Next (the (familyMap rs (toLowerCase (familyName r)))), rs)
      else
        (case selectFamily (familyName r) (db rs) of
           (Exn m, s1) \<Rightarrow> (Raised m, rs\<lparr>db := s1\<rparr>)
         | (Val (Some existingFamily), s1) \<Rightarrow>
             (Next (family_ident existingFamily),
              memoFamily (familyName r) (family_ident existingFamily) (rs\<lparr>db := s1\<rparr>))
         | (Val None, s1) \<Rightarrow>
             (case insertFamily (familyName r) (orUndefined (address r)) (phone r) s1 of
                (Exn m, s2) \<Rightarrow> (Raised m, rs\<lparr>db := s2\<rparr>)
              | (Val (Inl msg), s2) \<Rightarrow>
                  (Continue,
                   pushError rowNumber (''Failed to create family: '' @ msg) r (rs\<lparr>db := s2\<rparr>))
              | (Val (Inr newFamily), s2) \<Rightarrow>
                  (Next (family_ident newFamily),
                   memoFamily (familyName r) (family_ident newFamily) (rs\<lparr>db := s2\<rparr>)))))"

text \<open>Link the member to the family and, for a head of family, the family to the member.\<close>

definition linkFamily :: "excel_row \<Rightarrow> ident \<Rightarrow> ident \<Rightarrow> store \<Rightarrow> unit outcome \<times> store" where
  "linkFamily r userId familyId s =
     (if familyId \<noteq> [] \<and> userId \<noteq> [] then
        (case updateUserFamily userId familyId s of
           (Exn m, s1) \<Rightarrow> (Exn m, s1)
         | (Val e, s1) \<Rightarrow>
             (if headOfFamily r \<and> familyId \<noteq> [] then
                (case updateFamilyHead familyId userId s1 of
                   (Exn m, s2) \<Rightarrow> (Exn m, s2)
                 | (Val e2, s2) \<Rightarrow> (Val (), s2))
              else (Val (), s1)))
      else (Val (), s))"

text \<open>Group memberships: one upsert for every listed name that the group map knows.\<close>

definition groupNames :: "string \<Rightarrow> string list" where
  "groupNames gm = map (toLowerCase \<circ> trim) (split CHR '','' gm)"

fun upsertGroups ::
  "(string \<rightharpoonup> ident) \<Rightarrow> ident \<Rightarrow> string list \<Rightarrow> store \<Rightarrow> unit outcome \<times> store" where
  "upsertGroups groupMap userId [] s = (Val (), s)"
| "upsertGroups groupMap userId (groupName # rest) s =
     (if truthy (groupMap groupName) then
        (case upsertMembership (the (groupMap groupName)) userId s of
           (Exn m, s1) \<Rightarrow> (Exn m, s1)
         | (Val e, s1) \<Rightarrow> upsertGroups groupMap userId rest s1)
      else upsertGroups groupMap userId rest s)"

definition handleGroups ::
  "(string \<rightharpoonup> ident) \<Rightarrow> excel_row \<Rightarrow> ident \<Rightarrow> store \<Rightarrow> unit outcome \<times> store" where
  "handleGroups groupMap r userId s =
     (if truthy (groupMemberships r) \<and> userId \<noteq> []
      then upsertGroups groupMap userId (groupNames (the (groupMemberships r))) s
      else (Val (), s))"

text \<open>The body of the per-row \<^verbatim>\<open>try\<close> block, up to \<^verbatim>\<open>successCount++\<close>.\<close>

definition tryRow ::
  "(string \<Rightarrow> bool) \<Rightarrow> (string \<rightharpoonup> ident) \<Rightarrow> excel_row \<Rightarrow> nat \<Rightarrow> run \<Rightarrow> unit step \<times> run" where
  "tryRow dateParses groupMap r rowNumber rs =
     (case validateRow dateParses r rowNumber of
        Some validationError \<Rightarrow> (Continue, rs\<lparr>errors := errors rs @ [validationError]\<rparr>)
      | None \<Rightarrow>
          (case resolveMember r rowNumber rs of
             (Raised m, rs1) \<Rightarrow> (Raised m, rs1)
           | (Continue, rs1) \<Rightarrow> (Continue, rs1)
           | (Next userId, rs1) \<Rightarrow>
               (case resolveFamily r rowNumber rs1 of
                  (Raised m, rs2) \<Rightarrow> (Raised m, rs2)
                | (Continue, rs2) \<Rightarrow> (Continue, rs2)
                | (Next familyId, rs2) \<Rightarrow>
                    (case linkFamily r userId familyId (db rs2) of
                       (Exn m, s3) \<Rightarrow> (Raised m, rs2\<lparr>db := s3\<rparr>)
                     | (Val u, s3) \<Rightarrow>
                         (case handleGroups groupMap r userId s3 of
                            (Exn m, s4) \<Rightarrow> (Raised m, rs2\<lparr>db := s4\<rparr>)
                          | (Val u, s4) \<Rightarrow>
                              (Next (), rs2\<lparr>db := s4, successCount := successCount rs2 + 1\<rparr>))))))"

text \<open>The periodic progress write and the two terminal writes.\<close>

definition progressValues :: "run \<Rightarrow> import_job \<Rightarrow> import_job" where
  "progressValues rs j =
     j\<lparr>processed_records := processedCount rs,
       successful_records := successCount rs,
       failed_records := length (errors rs)\<rparr>"

definition finalValues :: "job_status \<Rightarrow> run \<Rightarrow> import_job \<Rightarrow> import_job" where
  "finalValues st rs j =
     j\<lparr>status := st,
       processed_records := processedCount rs,
       successful_records := successCount rs,
       failed_records := length (errors rs),
       error_log := Some (errors rs),
       completed_at := Some (tick (db rs))\<rparr>"

text \<open>
  One pass through the body of the \<^verbatim>\<open>for\<close> loop. The result is the exception that
  leaves the loop, if any. A \<^verbatim>\<open>continue\<close> inside the \<^verbatim>\<open>try\<close> block goes to the next
  row at once; an exception inside it is caught and recorded. The guard
  \<^verbatim>\<open>if (!row) continue\<close> at the head of the body never fires, a row being an object.
\<close>

definition iteration ::
  "(string \<Rightarrow> bool) \<Rightarrow> (string \<rightharpoonup> ident) \<Rightarrow> ident \<Rightarrow> excel_row \<Rightarrow> nat \<Rightarrow> run
     \<Rightarrow> string option \<times> run" where
  "iteration dateParses groupMap jobId r i rs =
     (let rowNumber = i + 2 in
      case tryRow dateParses groupMap r rowNumber rs of
        (Continue, rs1) \<Rightarrow> (None, rs1)
      | (res, rs1) \<Rightarrow>
          (let rs2 = (case res of
                        Raised m \<Rightarrow> pushError rowNumber (''Processing error: '' @ m) r rs1
                      | _ \<Rightarrow> rs1);
               rs3 = rs2\<lparr>processedCount := processedCount rs2 + 1\<rparr>
           in if processedCount rs3 mod 10 = 0 then
                (case updateJob jobId (progressValues rs3) (db rs3) of
                   (Exn m, s4) \<Rightarrow> (Some m, rs3\<lparr>db := s4\<rparr>)
                 | (Val e, s4) \<Rightarrow> (None, rs3\<lparr>db := s4\<rparr>))
              else (None, rs3)))"

fun processRows ::
  "(string \<Rightarrow> bool) \<Rightarrow> (string \<rightharpoonup> ident) \<Rightarrow> ident \<Rightarrow> nat \<Rightarrow> excel_row list \<Rightarrow> run
     \<Rightarrow> string option \<times> run" where
  "processRows dateParses groupMap jobId i [] rs = (None, rs)"
| "processRows dateParses groupMap jobId i (r # rest) rs =
     (case iteration dateParses groupMap jobId r i rs of
        (Some m, rs1) \<Rightarrow> (Some m, rs1)
      | (None, rs1) \<Rightarrow> processRows dateParses groupMap jobId (i + 1) rest rs1)"

text \<open>The outer \<^verbatim>\<open>try\<close> block of \<^verbatim>\<open>processImport\<close>.\<close>

definition tryImport ::
  "(string \<Rightarrow> bool) \<Rightarrow> ident \<Rightarrow> excel_row list \<Rightarrow> run \<Rightarrow> string option \<times> run" where
  "tryImport dateParses jobId rows rs =
     (case updateJob jobId
             (\<lambda>j. j\<lparr>status := Processing, started_at := Some (tick (db rs)),
                     total_records := length rows\<rparr>) (db rs) of
        (Exn m, s1) \<Rightarrow> (Some m, rs\<lparr>db := s1\<rparr>)
      | (Val e, s1) \<Rightarrow>
          (case selectGroups s1 of
             (Exn m, s2) \<Rightarrow> (Some m, rs\<lparr>db := s2\<rparr>)
           | (Val gs, s2) \<Rightarrow>
               (case processRows dateParses (buildGroupMap gs) jobId 0 rows (rs\<lparr>db := s2\<rparr>) of
                  (Some m, rs1) \<Rightarrow> (Some m, rs1)
                | (None, rs1) \<Rightarrow>
                    (case updateJob jobId (finalValues Completed rs1) (db rs1) of
                       (Exn m, s3) \<Rightarrow> (Some m, rs1\<lparr>db := s3\<rparr>)
                     | (Val e, s3) \<Rightarrow> (None, rs1\<lparr>db := s3\<rparr>)))))"

text \<open>
  \<^verbatim>\<open>processImport\<close>: the result is the error the returned promise is rejected with, if
  any, and the store the run leaves.
\<close>

definition processImport ::
  "(string \<Rightarrow> bool) \<Rightarrow> ident \<Rightarrow> excel_row list \<Rightarrow> ident \<Rightarrow> store \<Rightarrow> string option \<times> store" where
  "processImport dateParses jobId rows createdBy s =
     (case tryImport dateParses jobId rows
             \<lparr>db = s, errors = [], familyMap = Map.empty, processedCount = 0, successCount = 0\<rparr> of
        (None, rs1) \<Rightarrow> (None, db rs1)
      | (Some m, rs1) \<Rightarrow>
          (case updateJob jobId (finalValues Failed rs1) (db rs1) of
             (Exn m2, s2) \<Rightarrow> (Some m2, s2)
           | (Val e, s2) \<Rightarrow> (Some m, s2)))"

section \<open>Submitting a file\<close>

text \<open>
  The handler of \<^verbatim>\<open>POST /excel\<close>. The uploaded file is given with what the workbook
  reader finds in it. The handler answers with a status code and a body; when it starts
  a run, the run goes on detached from the request and the handler makes no further
  database request, so the run is executed here to its end and its outcome is the second
  component of the result (\<open>None\<close> when no run was started). Removing the uploaded
  file and logging do not touch the database and are left out.
\<close>

record upload =
  originalname :: string
  path :: string
  content :: excel_file

record http_request =
  reqFile :: "upload option"
  reqUser :: "ident option"

datatype body = Failure string | Started ident nat

datatype http_response = Response nat body

definition refusedValues :: "nat \<Rightarrow> import_error \<Rightarrow> import_job \<Rightarrow> import_job" where
  "refusedValues now e j = j\<lparr>status := Failed, error_log := Some [e], completed_at := Some now\<rparr>"

definition refuse ::
  "ident \<Rightarrow> import_error \<Rightarrow> string \<Rightarrow> store \<Rightarrow> http_response \<times> string option option \<times> store" where
  "refuse jobId e msg s =
     (case updateJob jobId (refusedValues (tick s) e) s of
        (Exn m, s1) \<Rightarrow> (Response 500 (Failure ''Internal server error''), None, s1)
      | (Val x, s1) \<Rightarrow> (Response 400 (Failure msg), None, s1))"

text \<open>Decimal text of a number, as string interpolation produces it.\<close>

fun digits :: "nat \<Rightarrow> nat \<Rightarrow> string" where
  "digits 0 n = []"
| "digits (Suc fuel) n =
     (if n < 10 then [''0123456789'' ! n]
      else digits fuel (n div 10) @ [''0123456789'' ! (n mod 10)])"

definition showNat :: "nat \<Rightarrow> string" where
  "showNat n = digits (Suc n) n"

definition postExcel ::
  "(string \<Rightarrow> bool) \<Rightarrow> http_request \<Rightarrow> store \<Rightarrow> http_response \<times> string option option \<times> store" where
  "postExcel dateParses req s =
     (case reqFile req of
        None \<Rightarrow> (Response 400 (Failure ''No file uploaded''), None, s)
      | Some f \<Rightarrow>
          (if \<not> truthy (reqUser req)
           then (Response 401 (Failure ''User authentication required''), None, s)
           else
             (case insertJob (originalname f) (path f) (the (reqUser req)) s of
                (Exn m, s1) \<Rightarrow> (Response 500 (Failure ''Internal server error''), None, s1)
              | (Val (Inl jobError), s1) \<Rightarrow>
                  (Response 500 (Failure ''Failed to create import job''), None, s1)
              | (Val (Inr importJob), s1) \<Rightarrow>
                  (case parseExcelFile (content f) of
                     Inl parseError \<Rightarrow>
                       refuse (job_id importJob)
                         \<lparr>row = 0, error = ''File parsing error: '' @ parseError, data = NoData\<rparr>
                         ''Failed to parse Excel file. Please check the file format and try again.''
                         s1
                   | Inr rows \<Rightarrow>
                       (if length rows = 0 then
                          refuse (job_id importJob)
                            \<lparr>row = 0, error = ''No valid data rows found in Excel file'',
                             data = NoData\<rparr>
                            ''No valid data found in Excel file'' s1
                        else if length rows > 5000 then
                          refuse (job_id importJob)
                            \<lparr>row = 0,
                             error = ''File contains too many records. Maximum allowed: 5,000'',
                             data = TotalRows (length rows)\<rparr>
                            (''File contains '' @ showNat (length rows)
                               @ '' records. Maximum allowed: 5,000'') s1
                        else
                          (case processImport dateParses (job_id importJob) rows
                                  (the (reqUser req)) s1 of
                             (outcome, s2) \<Rightarrow>
                               (Response 201 (Started (job_id importJob) (length rows)),
                                Some outcome, s2)))))))"

section \<open>The words of a regular expression\<close>

text \<open>
  The words a regular expression denotes: \<open>conc\<close> is concatenation of two sets of
  words; \<open>AtLeast n r\<close> denotes the concatenations of at least \<open>n\<close> words of \<open>r\<close>.
\<close>

definition conc :: "string set \<Rightarrow> string set \<Rightarrow> string set" where
  "conc A B = {u @ v | u v. u \<in> A \<and> v \<in> B}"

fun lang :: "regex \<Rightarrow> string set" where
  "lang Never = {}"
| "lang Empty = {[]}"
| "lang (OneOf cs) = {[c] | c. list_ex (inClass c) cs}"
| "lang (NoneOf cs) = {[c] | c. \<not> list_ex (inClass c) cs}"
| "lang (Seq a b) = conc (lang a) (lang b)"
| "lang (Alt a b) = lang a \<union> lang b"
| "lang (Opt a) = insert [] (lang a)"
| "lang (AtLeast n a) = {concat ws | ws. n \<le> length ws \<and> set ws \<subseteq> lang a}"

section \<open>The specification's reading of validation and parsing\<close>

text \<open>
  The formats in words. An email has the shape local@domain: a non-empty local part, an
  at sign, and a domain with a dot that has text on both sides, no character being white
  space or a further at sign. A phone number is an optional leading plus sign followed
  by digits, white space, hyphens and parentheses only; the specification asks for at
  least 10 digits among them (\<open>specPhone\<close>), the code for at least 10 such characters
  (\<open>phoneShape\<close>). An optional field is present when it is defined and not empty.
\<close>

definition plainChar :: "char \<Rightarrow> bool" where
  "plainChar c = (\<not> isSpace c \<and> c \<noteq> CHR ''@'')"

definition emailShape :: "string \<Rightarrow> bool" where
  "emailShape e =
     (\<exists>local a b. e = local @ ''@'' @ a @ ''.'' @ b \<and> local \<noteq> [] \<and> a \<noteq> [] \<and> b \<noteq> []
        \<and> list_all plainChar local \<and> list_all plainChar a \<and> list_all plainChar b)"

definition phoneChar :: "char \<Rightarrow> bool" where
  "phoneChar c = (isDigit c \<or> isSpace c \<or> c = CHR ''-'' \<or> c = CHR ''('' \<or> c = CHR '')'')"

definition phoneBody :: "string \<Rightarrow> string" where
  "phoneBody p = (case p of [] \<Rightarrow> [] | c # cs \<Rightarrow> if c = CHR ''+'' then cs else p)"

definition specPhone :: "string \<Rightarrow> bool" where
  "specPhone p = (10 \<le> length (filter isDigit (phoneBody p)) \<and> list_all phoneChar (phoneBody p))"

definition phoneShape :: "string \<Rightarrow> bool" where
  "phoneShape p = (10 \<le> length (phoneBody p) \<and> list_all phoneChar (phoneBody p))"

definition present :: "string option \<Rightarrow> bool" where
  "present x = (x \<noteq> None \<and> x \<noteq> Some [])"

text \<open>
  The checks of the row validator as the specification lists them, in its order, each
  with the message of its violation, for a given phone format; an optional field is only
  checked when present. \<open>specChecks\<close> takes the phone format of the specification,
  \<open>codeChecks\<close> the one of the code.
\<close>

definition orderedChecks ::
  "(string \<Rightarrow> bool) \<Rightarrow> (string \<Rightarrow> bool) \<Rightarrow> excel_row \<Rightarrow> (bool \<times> string) list" where
  "orderedChecks phoneFormat dateParses r =
     [(firstName r \<noteq> [], ''First name is required''),
      (lastName r \<noteq> [], ''Last name is required''),
      (email r \<noteq> [], ''Email is required''),
      (phone r \<noteq> [], ''Phone is required''),
      (familyName r \<noteq> [], ''Family name is required''),
      (emailShape (email r), ''Invalid email format''),
      (phoneFormat (phone r), ''Invalid phone number format''),
      (present (bloodGroup r) \<longrightarrow>
         the (bloodGroup r) \<in> {''A+'', ''B+'', ''AB+'', ''O+'', ''A-'', ''B-'', ''AB-'', ''O-''},
       ''Invalid blood group''),
      (present (dateOfBirth r) \<longrightarrow> dateParses (the (dateOfBirth r)),
       ''Invalid date of birth format''),
      (present (gender r) \<longrightarrow> the (gender r) \<in> {''Male'', ''Female'', ''Other''},
       ''Invalid gender. Must be Male, Female, or Other'')]"

definition specChecks :: "(string \<Rightarrow> bool) \<Rightarrow> excel_row \<Rightarrow> (bool \<times> string) list" where
  "specChecks dateParses r = orderedChecks specPhone dateParses r"

definition codeChecks :: "(string \<Rightarrow> bool) \<Rightarrow> excel_row \<Rightarrow> (bool \<times> string) list" where
  "codeChecks dateParses r = orderedChecks phoneShape dateParses r"

definition firstViolation :: "(bool \<times> string) list \<Rightarrow> string option" where
  "firstViolation cs = map_option snd (find (\<lambda>c. \<not> fst c) cs)"

text \<open>
  The specification's reading of the parser: the text of a cell is empty when the cell
  is absent, an optional field is absent when its trimmed text is empty.
\<close>

definition cellOf :: "cell list \<Rightarrow> nat \<Rightarrow> string" where
  "cellOf cells k = orEmpty (cellText cells k)"

definition optional :: "string \<Rightarrow> string option" where
  "optional v = (if v = [] then None else Some v)"

definition specRow :: "cell list \<Rightarrow> excel_row" where
  "specRow cells =
     \<lparr>firstName = trim (cellOf cells 1),
      lastName = trim (cellOf cells 2),
      email = toLowerCase (trim (cellOf cells 3)),
      phone = trim (cellOf cells 4),
      dateOfBirth = optional (trim (cellOf cells 5)),
      gender = optional (trim (cellOf cells 6)),
      bloodGroup = optional (trim (cellOf cells 7)),
      address = optional (trim (cellOf cells 8)),
      emergencyContactName = optional (trim (cellOf cells 9)),
      emergencyContactPhone = optional (trim (cellOf cells 10)),
      familyName = trim (cellOf cells 11),
      headOfFamily = (toLowerCase (trim (cellOf cells 12)) \<in> set [''yes'', ''y'', ''true'', ''1'']),
      groupMemberships = optional (trim (cellOf cells 13)),
      role = Some (if toLowerCase (trim (cellOf cells 14)) = ''group_leader''
                   then RowGroupLeader else RowMember),
      rowNotes = optional (trim (cellOf cells 15))\<rparr>"

definition requiredPresent :: "cell list \<Rightarrow> bool" where
  "requiredPresent cells =
     (trim (cellOf cells 1) \<noteq> [] \<and> trim (cellOf cells 2) \<noteq> [] \<and> trim (cellOf cells 3) \<noteq> []
      \<and> trim (cellOf cells 4) \<noteq> [] \<and> trim (cellOf cells 11) \<noteq> [])"

section \<open>Relations used in the properties\<close>

text \<open>
  The columns of a member that an import row may write: \<open>onlyProfileColumns old new\<close>
  says that \<open>new\<close> is \<open>old\<close> except possibly for first and last name, phone, date of
  birth, gender, blood group, address, the emergency contact name and phone, and role.
\<close>

definition onlyProfileColumns :: "user_profile \<Rightarrow> user_profile \<Rightarrow> bool" where
  "onlyProfileColumns old new =
     (new\<lparr>first_name := first_name old, last_name := last_name old,
          user_phone := user_phone old, date_of_birth := date_of_birth old,
          user_gender := user_gender old, blood_group := blood_group old,
          user_address := user_address old,
          emergency_contact_name := emergency_contact_name old,
          emergency_contact_phone := emergency_contact_phone old,
          user_role := user_role old\<rparr> = old)"


definition pairOf :: "group_membership \<Rightarrow> ident \<times> ident" where
  "pairOf m = (group_id m, member_id m)"


text \<open>
  What a request outside \<^verbatim>\<open>import_jobs\<close> leaves alone: the job rows and their
  versions, and name, address and phone of every stored family (families are only
  added at the end of the table). \<open>memoKept\<close> says that a family memo keeps its truthy
  entries.
\<close>

definition familyCore :: "family \<Rightarrow> ident \<times> string \<times> string option \<times> string option" where
  "familyCore f = (family_ident f, family_name f, family_address f, family_phone f)"

definition familiesKept :: "store \<Rightarrow> store \<Rightarrow> bool" where
  "familiesKept s s' = (\<exists>new. map familyCore (families s') = map familyCore (families s) @ new)"

definition sameJobs :: "store \<Rightarrow> store \<Rightarrow> bool" where
  "sameJobs s s' = (import_jobs s' = import_jobs s \<and> job_versions s' = job_versions s)"

definition quiet :: "store \<Rightarrow> store \<Rightarrow> bool" where
  "quiet s s' = (sameJobs s s' \<and> familiesKept s s')"

definition memoKept :: "(string \<rightharpoonup> ident) \<Rightarrow> (string \<rightharpoonup> ident) \<Rightarrow> bool" where
  "memoKept m m' = (\<forall>k f. m k = Some f \<and> f \<noteq> [] \<longrightarrow> m' k = Some f)"

definition steady :: "run \<Rightarrow> run \<Rightarrow> bool" where
  "steady rs rs' = (quiet (db rs) (db rs') \<and> memoKept (familyMap rs) (familyMap rs'))"

text \<open>
  \<open>calm\<close>: a request that leaves the job rows alone and keeps name, address and phone
  of exactly the families that were stored. \<open>kept\<close>: across rows of a run, the stored
  families keep name, address and phone and the memo keeps its truthy entries.
  \<open>familyOfRow\<close> is the family identifier that the family stage of a row yields when
  the row is processed in a given state of the run, if the row gets that far.
\<close>

definition calm :: "store \<Rightarrow> store \<Rightarrow> bool" where
  "calm s s' = (sameJobs s s' \<and> map familyCore (families s') = map familyCore (families s))"

definition kept :: "run \<Rightarrow> run \<Rightarrow> bool" where
  "kept rs rs' = (familiesKept (db rs) (db rs') \<and> memoKept (familyMap rs) (familyMap rs'))"

definition familyOfRow :: "(string \<Rightarrow> bool) \<Rightarrow> excel_row \<Rightarrow> nat \<Rightarrow> run \<Rightarrow> ident option" where
  "familyOfRow dateParses r rowNumber rs =
     (case validateRow dateParses r rowNumber of
        Some e \<Rightarrow> None
      | None \<Rightarrow>
          (case resolveMember r rowNumber rs of
             (Next userId, rs1) \<Rightarrow>
               (case resolveFamily r rowNumber rs1 of
                  (Next familyId, rs2) \<Rightarrow> Some familyId
                | _ \<Rightarrow> None)
           | _ \<Rightarrow> None))"

text \<open>
  The rows of one job, the relation between two versions of a job row that differ at
  most in the three counters, and the order of the job states: a list of states moves
  forward when no state is followed by an earlier one and nothing follows a terminal
  state.
\<close>

definition jobRows :: "ident \<Rightarrow> store \<Rightarrow> import_job list" where
  "jobRows j s = filter (\<lambda>x. job_id x = j) (import_jobs s)"

definition onlyCounters :: "import_job \<Rightarrow> import_job \<Rightarrow> bool" where
  "onlyCounters old new =
     (job_id new = job_id old \<and> filename new = filename old \<and> file_url new = file_url old
      \<and> status new = status old \<and> total_records new = total_records old
      \<and> error_log new = error_log old \<and> created_by new = created_by old
      \<and> started_at new = started_at old \<and> completed_at new = completed_at old)"

definition terminal :: "job_status \<Rightarrow> bool" where
  "terminal st = (st = Completed \<or> st = Failed)"

fun rank :: "job_status \<Rightarrow> nat" where
  "rank Pending = 0"
| "rank Processing = 1"
| "rank Completed = 2"
| "rank Failed = 2"

fun forward :: "job_status list \<Rightarrow> bool" where
  "forward [] = True"
| "forward [a] = True"
| "forward (a # b # rest) = (\<not> terminal a \<and> rank a \<le> rank b \<and> forward (b # rest))"

text \<open>
  \<open>grows j x s new s'\<close>: between the stores \<open>s\<close> and \<open>s'\<close> the one row \<open>x\<close> of job
  \<open>j\<close> went through the versions \<open>new\<close>, which were persisted in that order.
\<close>

definition grows :: "ident \<Rightarrow> import_job \<Rightarrow> store \<Rightarrow> import_job list \<Rightarrow> store \<Rightarrow> bool" where
  "grows j x s new s' =
     (jobRows j s = [x] \<and> jobRows j s' = [last (x # new)]
      \<and> job_versions s' = job_versions s @ new)"

text \<open>The state and the three counters of a job row.\<close>

definition counters :: "import_job \<Rightarrow> job_status \<times> nat \<times> nat \<times> nat" where
  "counters j = (status j, processed_records j, successful_records j, failed_records j)"



text \<open>
  What the handler writes and answers when it refuses a parsed set of \<open>n\<close> rows: the
  single entry of the job's error log and the message of the response.
\<close>

definition refusalEntry :: "nat \<Rightarrow> import_error" where
  "refusalEntry n =
     (if n = 0
      then \<lparr>row = 0, error = ''No valid data rows found in Excel file'', data = NoData\<rparr>
      else \<lparr>row = 0, error = ''File contains too many records. Maximum allowed: 5,000'',
            data = TotalRows n\<rparr>)"

definition refusalMessage :: "nat \<Rightarrow> string" where
  "refusalMessage n =
     (if n = 0 then ''No valid data found in Excel file''
      else ''File contains '' @ showNat n @ '' records. Maximum allowed: 5,000'')"

section \<open>Example data\<close>

text \<open>
  Rows, sheets, a store with one group whose database answers every request with
  success and case-insensitive name matching, and a pending job.
\<close>

definition john :: excel_row where
  "john =
     \<lparr>firstName = ''John'', lastName = ''Doe'', email = ''john.doe@email.com'',
      phone = ''+1234567890'', dateOfBirth = Some ''1985-06-15'', gender = Some ''Male'',
      bloodGroup = Some ''A+'', address = Some ''123 Main St'', emergencyContactName = None,
      emergencyContactPhone = None, familyName = ''Doe Family'', headOfFamily = True,
      groupMemberships = Some ''Choir, Youth Group'', role = Some RowMember, rowNotes = None\<rparr>"

definition anyDate :: "string \<Rightarrow> bool" where
  "anyDate d = True"

definition headerCells :: "cell list" where
  "headerCells = [None, Some ''First Name*'', Some ''Last Name*'', Some ''Email*'', Some ''Phone*'']"

definition janeCells :: "cell list" where
  "janeCells =
     [None, Some '' Jane'', Some ''Doe '', Some ''Jane.Doe@Email.com'', Some ''+1234567891'',
      None, Some ''Female'', None, None, None, None, Some ''Doe Family'', Some '' YES '',
      Some ''Choir'', Some ''Group_Leader'']"

definition noPhoneCells :: "cell list" where
  "noPhoneCells =
     [None, Some ''Jim'', Some ''Poe'', Some ''jim@poe.org'', Some ''   '',
      None, None, None, None, None, None, Some ''Poe Family'']"

definition jane :: excel_row where
  "jane =
     \<lparr>firstName = ''Jane'', lastName = ''Doe'', email = ''jane.doe@email.com'',
      phone = ''+1234567891'', dateOfBirth = None, gender = Some ''Female'',
      bloodGroup = None, address = None, emergencyContactName = None,
      emergencyContactPhone = None, familyName = ''Doe Family'', headOfFamily = True,
      groupMemberships = Some ''Choir'', role = Some RowGroupLeader, rowNotes = None\<rparr>"

definition janeLower :: excel_row where
  "janeLower = jane\<lparr>firstName := ''June'', email := ''june.doe@email.com'',
     phone := ''+1234567899'', familyName := ''doe family'', address := Some ''9 Side St'',
     headOfFamily := False\<rparr>"

definition store0 :: store where
  "store0 =
     \<lparr>user_profiles = [], families = [],
      groups = [\<lparr>group_ident = ''g1'', group_name = ''Choir''\<rparr>],
      group_memberships = [], import_jobs = [], job_versions = [],
      responses = (\<lambda>n. Ok (''id'' @ showNat n)),
      ilike = (\<lambda>p x. toLowerCase p = toLowerCase x), tick = 0\<rparr>"

definition oldJohn :: user_profile where
  "oldJohn =
     \<lparr>user_id = ''u1'', user_email = Some ''john.doe@email.com'', first_name = ''Jon'',
      last_name = ''Do'', user_phone = Some ''+1000000000'', date_of_birth = None,
      user_gender = None, blood_group = None, user_address = None,
      emergency_contact_name = None, emergency_contact_phone = None,
      user_role = RoleGroupLeader, family_id = Some ''f9''\<rparr>"

definition run0 :: "store \<Rightarrow> run" where
  "run0 s = \<lparr>db = s, errors = [], familyMap = Map.empty, processedCount = 0, successCount = 0\<rparr>"

definition noFirstNameCells :: "cell list" where
  "noFirstNameCells =
     [None, None, Some ''Roe'', Some ''rick@roe.org'', Some ''+1234567893'',
      None, None, None, None, None, None, Some ''Roe Family'']"

definition badEmailCells :: "cell list" where
  "badEmailCells =
     [None, Some ''Ann'', Some ''Lee'', Some ''not-an-email'', Some ''+1234567892'',
      None, None, None, None, None, None, Some ''Lee Family'']"

definition requestOf :: "worksheet \<Rightarrow> http_request" where
  "requestOf ws =
     \<lparr>reqFile = Some \<lparr>originalname = ''members.xlsx'', path = ''/uploads/members.xlsx'',
                       content = Workbook (Some ws)\<rparr>,
      reqUser = Some ''admin''\<rparr>"

definition pendingJob :: import_job where
  "pendingJob =
     \<lparr>job_id = ''job1'', filename = ''members.xlsx'', file_url = ''/uploads/members.xlsx'',
      status = Pending, total_records = 0, processed_records = 0, successful_records = 0,
      failed_records = 0, error_log = None, created_by = ''admin'', started_at = None,
      completed_at = None\<rparr>"

text \<open>A database that creates the first row asked for and reports an error ever after.\<close>

definition store1 :: store where
  "store1 = store0\<lparr>responses := (\<lambda>n. if n = 0 then Ok ''id0'' else Err ''connection lost'')\<rparr>"

section \<open>Properties of the string functions\<close>

text \<open>
  The table of \<open>toLowerChar\<close>: the capitals are the characters 0x41 to 0x5A, 0xC0 to 0xD6
  and 0xD8 to 0xDE, each is mapped to the character 32 places further on, and every
  other character is left as it is.
\<close>

lemma upperLetters_codes:
  "map of_char upperLetters = [0x41..<0x5B] @ [0xC0..<0xD7] @ [0xD8..<(0xDF::nat)]"
  by (simp add: upperLetters_def)

lemma lowerLetters_shift:
  "map of_char lowerLetters = map (\<lambda>c. of_char c + (32::nat)) upperLetters"
  by (simp add: upperLetters_def lowerLetters_def)

lemma toLowerChar_other: "c \<notin> set upperLetters \<Longrightarrow> toLowerChar c = c"
proof -
  assume c: "c \<notin> set upperLetters"
  have "length upperLetters = length lowerLetters"
    by (simp add: upperLetters_def lowerLetters_def)
  then have "map fst (zip upperLetters lowerLetters) = upperLetters"
    by (rule map_fst_zip)
  then have "fst ` set (zip upperLetters lowerLetters) = set upperLetters"
    by (metis set_map)
  with c have "map_of (zip upperLetters lowerLetters) c = None"
    by (simp only: map_of_eq_None_iff not_False_eq_True)
  then show ?thesis by (simp add: toLowerChar_def)
qed

lemma toLowerChar_upper:
  assumes "i < length upperLetters"
  shows "toLowerChar (upperLetters ! i) = lowerLetters ! i"
proof -
  have d: "distinct upperLetters" by (simp add: upperLetters_def)
  have l: "length upperLetters = length lowerLetters"
    by (simp add: upperLetters_def lowerLetters_def)
  from d l assms have "map_of (zip upperLetters lowerLetters) (upperLetters ! i) = Some (lowerLetters ! i)"
    by (metis map_of_zip_nth)
  then show ?thesis by (simp add: toLowerChar_def)
qed

lemma toLowerCase_latin1:
  "toLowerCase [CHR 0xC9, CHR ''L'', CHR ''a'', CHR ''N'', CHR 0xD7, CHR 0xDF]
     = [CHR 0xE9, CHR ''l'', CHR ''a'', CHR ''n'', CHR 0xD7, CHR 0xDF]"
  by code_simp

lemma trim_Nil [simp]: "trim [] = []"
  by (simp add: trim_def trimStart_def trimEnd_def)

lemma toLowerCase_Nil [simp]: "toLowerCase [] = []"
  by (simp add: toLowerCase_def)

lemma toLowerCase_eq_Nil [simp]: "(toLowerCase s = []) = (s = [])"
  by (simp add: toLowerCase_def)

lemma isSpace_toLowerChar [simp]: "isSpace (toLowerChar c) = isSpace c"
proof (cases "map_of (zip upperLetters lowerLetters) c")
  case None
  then show ?thesis by (simp add: toLowerChar_def)
next
  case (Some d)
  then have "(c, d) \<in> set (zip upperLetters lowerLetters)"
    by (rule map_of_SomeD)
  then have "\<not> isSpace c \<and> \<not> isSpace d"
    by (auto simp: upperLetters_def lowerLetters_def isSpace_def)
  with Some show ?thesis by (simp add: toLowerChar_def)
qed

lemma trim_toLowerCase: "trim (toLowerCase s) = toLowerCase (trim s)"
proof -
  have a: "dropWhile isSpace (map toLowerChar xs) = map toLowerChar (dropWhile isSpace xs)" for xs
    by (simp add: dropWhile_map comp_def)
  show ?thesis
    by (simp add: trim_def trimStart_def trimEnd_def toLowerCase_def a rev_map)
qed

lemma rev_dropWhile_split:
  "xs = rev (dropWhile P (rev xs)) @ rev (takeWhile P (rev xs))"
proof -
  have "rev (dropWhile P (rev xs)) @ rev (takeWhile P (rev xs))
          = rev (takeWhile P (rev xs) @ dropWhile P (rev xs))"
    by (simp only: rev_append)
  also have "\<dots> = rev (rev xs)"
    by (simp only: takeWhile_dropWhile_id)
  finally show ?thesis by simp
qed

lemma trim_trimStart: "trimStart s = trim s @ rev (takeWhile isSpace (rev (trimStart s)))"
  unfolding trim_def trimEnd_def by (rule rev_dropWhile_split)

lemma trim_decomp:
  "\<exists>pre post. s = pre @ trim s @ post \<and> list_all isSpace pre \<and> list_all isSpace post"
proof -
  have 1: "s = takeWhile isSpace s @ trimStart s"
    by (simp add: trimStart_def)
  have 3: "list_all isSpace (takeWhile isSpace s)"
    by (simp add: list_all_iff) (meson set_takeWhileD)
  have 4: "list_all isSpace (rev (takeWhile isSpace (rev (trimStart s))))"
    by (simp add: list_all_iff) (meson set_takeWhileD)
  from 1 trim_trimStart [of s]
  have "s = takeWhile isSpace s @ trim s @ rev (takeWhile isSpace (rev (trimStart s)))"
    by metis
  with 3 4 show ?thesis by blast
qed

lemma trim_ends:
  assumes "trim s \<noteq> []"
  shows "\<not> isSpace (hd (trim s)) \<and> \<not> isSpace (last (trim s))"
proof -
  let ?u = "dropWhile isSpace (rev (trimStart s))"
  have ts: "trim s = rev ?u" by (simp add: trim_def trimEnd_def)
  with assms have u: "?u \<noteq> []" by simp
  then have "\<not> isSpace (hd ?u)" by (rule hd_dropWhile)
  then have l: "\<not> isSpace (last (trim s))" using u by (simp add: ts last_rev)
  have "hd (trimStart s) = hd (trim s)"
    using assms trim_trimStart [of s] by (metis hd_append2)
  moreover have "trimStart s \<noteq> []"
    using assms by (auto simp: trim_def trimEnd_def)
  then have "\<not> isSpace (hd (trimStart s))"
    unfolding trimStart_def by (rule hd_dropWhile)
  ultimately show ?thesis using l by simp
qed

lemma orEmpty_trim: "orEmpty (map_option trim x) = trim (orEmpty x)"
  by (cases x) (simp_all add: orEmpty_def)

lemma orEmpty_lower_trim: "orEmpty (map_option (toLowerCase \<circ> trim) x) = toLowerCase (trim (orEmpty x))"
  by (cases x) (simp_all add: orEmpty_def)

lemma orEmpty_trim_lower: "orEmpty (map_option (trim \<circ> toLowerCase) x) = toLowerCase (trim (orEmpty x))"
  by (cases x) (simp_all add: orEmpty_def trim_toLowerCase)

lemma orUndefined_trim: "orUndefined (map_option trim x) = optional (trim (orEmpty x))"
  by (cases x) (simp_all add: orEmpty_def orUndefined_def optional_def truthy_def)

lemma role_cell:
  "(map_option (toLowerCase \<circ> trim) x = Some ''group_leader'')
     = (toLowerCase (trim (orEmpty x)) = ''group_leader'')"
  by (cases x) (auto simp: orEmpty_def)

section \<open>The parser\<close>

lemma eachRow_filter:
  "eachRow ws = filter hasRequired (map (parseRow \<circ> snd) (filter (\<lambda>p. fst p \<noteq> 1) ws))"
  by (induction ws rule: eachRow.induct) simp_all

lemma parseRow_specRow: "parseRow cells = specRow cells"
  unfolding parseRow_def specRow_def cellOf_def orEmpty_trim orEmpty_lower_trim orEmpty_trim_lower
    orUndefined_trim role_cell
  by simp

lemma hasRequired_specRow: "hasRequired (specRow cells) = requiredPresent cells"
  by (simp add: hasRequired_def requiredPresent_def specRow_def)

text \<open>
  C6. \<open>parseExcelFile\<close> yields, in sheet order, the rows after the header whose first
  name, last name, email, phone and family name are all non-empty after trimming, and
  leaves every other row out. In each row it yields, every text field is trimmed, the
  email is also lower-cased, an optional field with empty trimmed text is absent, the
  head-of-family flag is set exactly when the trimmed cell equals one of yes, y, true, 1
  without regard to case, and the role is group leader exactly when the trimmed cell
  equals \<^verbatim>\<open>group_leader\<close> without regard to case, member otherwise. The lemmas
  \<open>trim_decomp\<close> and \<open>trim_ends\<close> say that \<open>trim\<close> removes exactly the white space at
  both ends.
\<close>

theorem parseExcelFile_rows:
  "parseExcelFile (Workbook (Some ws)) =
     Inr (map (specRow \<circ> snd) (filter (\<lambda>p. fst p \<noteq> 1 \<and> requiredPresent (snd p)) ws))"
proof -
  have "filter hasRequired (map (parseRow \<circ> snd) xs) =
          map (specRow \<circ> snd) (filter (\<lambda>p. requiredPresent (snd p)) xs)" for xs :: worksheet
    by (induction xs) (simp_all add: hasRequired_specRow parseRow_specRow)
  then show ?thesis
    by (simp add: parseExcelFile_def eachRow_filter conj_commute)
qed

theorem parseExcelFile_rows_witness:
  "parseExcelFile (Workbook (Some [(1::nat, headerCells), (2, noPhoneCells), (3, janeCells)])) =
     Inr [jane]"
proof -
  have "map (specRow \<circ> snd)
          (filter (\<lambda>p. fst p \<noteq> 1 \<and> requiredPresent (snd p))
             [(1::nat, headerCells), (2, noPhoneCells), (3, janeCells)]) = [jane]"
    by code_simp
  then show ?thesis
    by (simp only: parseExcelFile_rows)
qed

section \<open>Member resolution\<close>

lemma onlyProfileColumns_refl: "onlyProfileColumns u u"
  by (simp add: onlyProfileColumns_def)

lemma memberValues_frame:
  "onlyProfileColumns u (memberValues r u) \<and> user_email (memberValues r u) = user_email u
   \<and> user_id (memberValues r u) = user_id u \<and> family_id (memberValues r u) = family_id u"
  by (simp add: onlyProfileColumns_def memberValues_def)

lemma selectUser_store:
  "selectUser e p s = (res, s1) \<Longrightarrow> s1 = s\<lparr>tick := Suc (tick s)\<rparr>"
  by (auto simp: selectUser_def request_def split: response.splits)

lemma updateUser_rows:
  "updateUser uid f s = (res, s1) \<Longrightarrow>
     list_all2 (\<lambda>old new. new = old \<or> (user_id old = uid \<and> new = f old))
       (user_profiles s) (user_profiles s1)"
  by (auto simp: updateUser_def request_def list_all2_map2 list_all2_same
      split: response.splits)

text \<open>
  C9. When the member lookup by email or phone finds an existing member, member
  resolution changes no column of any member other than first and last name, phone,
  date of birth, gender, blood group, address, emergency contact name and phone, and
  role; in particular every member keeps its email, its identifier and its family.
  Members other than the one found are not changed at all, and the table has the same
  rows as before, so no member is created. The stage either hands on the identifier of
  the member found, or records a row error, or throws.
\<close>

theorem update_existing_member:
  assumes found: "selectUser (email r) (phone r) (db rs) = (Val (Some u), s1)"
    and res: "resolveMember r n rs = (res, rs')"
  shows "list_all2
           (\<lambda>old new. onlyProfileColumns old new \<and> user_email new = user_email old
                \<and> user_id new = user_id old \<and> family_id new = family_id old
                \<and> (user_id old \<noteq> user_id u \<longrightarrow> new = old))
           (user_profiles (db rs)) (user_profiles (db rs'))
         \<and> res \<in> {Next (user_id u), Continue} \<union> range Raised"
proof -
  obtain e s2 where upd: "updateUser (user_id u) (memberValues r) s1 = (e, s2)"
    by (cases "updateUser (user_id u) (memberValues r) s1")
  from selectUser_store [OF found] have t: "user_profiles s1 = user_profiles (db rs)"
    by simp
  from res found upd have d: "db rs' = s2" and r: "res \<in> {Next (user_id u), Continue} \<union> range Raised"
    by (auto simp: resolveMember_def pushError_def split: outcome.splits option.splits)
  have "list_all2 (\<lambda>old new. new = old \<or> (user_id old = user_id u \<and> new = memberValues r old))
          (user_profiles (db rs)) (user_profiles s2)"
    using updateUser_rows [OF upd] t by simp
  then have "list_all2
           (\<lambda>old new. onlyProfileColumns old new \<and> user_email new = user_email old
                \<and> user_id new = user_id old \<and> family_id new = family_id old
                \<and> (user_id old \<noteq> user_id u \<longrightarrow> new = old))
           (user_profiles (db rs)) (user_profiles s2)"
    by (rule list_all2_mono) (auto simp: onlyProfileColumns_refl memberValues_frame)
  with d r show ?thesis by simp
qed

theorem update_existing_member_witness:
  "fst (selectUser (email john) (phone john) (db (run0 (store0\<lparr>user_profiles := [oldJohn]\<rparr>))))
     = Val (Some oldJohn)
   \<and> map user_email
       (user_profiles (db (snd (resolveMember john 2 (run0 (store0\<lparr>user_profiles := [oldJohn]\<rparr>))))))
     = [Some ''john.doe@email.com'']
   \<and> map first_name
       (user_profiles (db (snd (resolveMember john 2 (run0 (store0\<lparr>user_profiles := [oldJohn]\<rparr>))))))
     = [''John'']"
proof -
  let ?rs = "run0 (store0\<lparr>user_profiles := [oldJohn]\<rparr>)"
  have a: "fst (selectUser (email john) (phone john) (db ?rs)) = Val (Some oldJohn)"
    by code_simp
  then have found: "selectUser (email john) (phone john) (db ?rs)
      = (Val (Some oldJohn), snd (selectUser (email john) (phone john) (db ?rs)))"
    by (metis prod.collapse)
  have b: "map first_name (user_profiles (db (snd (resolveMember john 2 ?rs)))) = [''John'']"
    by code_simp
  have old: "user_profiles (db ?rs) = [oldJohn]"
    by (simp add: run0_def)
  have "list_all2
           (\<lambda>old new. onlyProfileColumns old new \<and> user_email new = user_email old
                \<and> user_id new = user_id old \<and> family_id new = family_id old
                \<and> (user_id old \<noteq> user_id oldJohn \<longrightarrow> new = old))
           [oldJohn] (user_profiles (db (snd (resolveMember john 2 ?rs))))"
    using update_existing_member [OF found, of 2 "fst (resolveMember john 2 ?rs)" "snd (resolveMember john 2 ?rs)"]
    by (simp add: old)
  then have "map user_email (user_profiles (db (snd (resolveMember john 2 ?rs)))) = [user_email oldJohn]"
    by (auto simp: list_all2_Cons1)
  then show ?thesis using a b by (simp add: oldJohn_def)
qed

section \<open>Counter and row-number divergences\<close>

text \<open>
  C1. The claim is that the persisted counters always satisfy successful + failed =
  processed. A row that fails validation adds an error entry and leaves the loop body by
  \<^verbatim>\<open>continue\<close>, before \<^verbatim>\<open>processedCount++\<close>. For one such row followed by ten valid
  rows, the progress write after the tenth processed row and the final write both
  persist processed = 10, successful = 10, failed = 1.
\<close>

theorem counters_diverge_after_validation_error:
  "map counters
     (job_versions (snd (processImport anyDate ''job1''
        (john\<lparr>email := ''not-an-email''\<rparr> # replicate 10 john) ''admin''
        (store0\<lparr>import_jobs := [pendingJob]\<rparr>))))
   = [(Processing, 0, 0, 0), (Processing, 10, 10, 1), (Completed, 10, 10, 1)]"
  by code_simp

text \<open>
  C3. The claim is that the error entry of a row with a malformed email carries the
  row's number in the sheet. The run numbers the rows it was given, from 2, and the
  parser has left out the rows that lack a required field: in a sheet whose row 2 has
  no first name and whose row 3 has the email \<^verbatim>\<open>not-an-email\<close>, the one error entry
  is tagged with row 2, and no member is created.
\<close>

theorem row_number_shifts_after_excluded_row:
  "(case postExcel anyDate
           (requestOf [(1, headerCells), (2, noFirstNameCells), (3, badEmailCells)]) store0 of
      (resp, outcome, s) \<Rightarrow>
        (resp, map (map_option (map (\<lambda>e. (row e, error e))) \<circ> error_log) (import_jobs s),
         user_profiles s))
   = (Response 201 (Started ''id0'' 1), [Some [(2, ''Invalid email format'')]], [])"
  by code_simp

section \<open>Submitting a file: the row limits\<close>

lemma insertJob_created:
  assumes "insertJob name url creator s = (Val (Inr job), s1)"
  shows "import_jobs s1 = import_jobs s @ [job] \<and> job_id job \<notin> set (map job_id (import_jobs s))
         \<and> status job = Pending \<and> job_versions s1 = job_versions s @ [job]
         \<and> user_profiles s1 = user_profiles s \<and> families s1 = families s
         \<and> group_memberships s1 = group_memberships s"
  using assms
  by (auto simp: insertJob_def request_def Let_def split: response.splits if_splits)

lemma refuse_answer:
  assumes "refuse i e msg s1 = (resp, outcome, s2)" and "import_jobs s1 = js @ [job]"
    and "job_id job = i" and "i \<notin> set (map job_id js)"
  shows "outcome = None
         \<and> user_profiles s2 = user_profiles s1 \<and> families s2 = families s1
         \<and> group_memberships s2 = group_memberships s1
         \<and> (case responses s1 (tick s1) of
              Ok x \<Rightarrow> resp = Response 400 (Failure msg)
                       \<and> import_jobs s2 = js @ [refusedValues (tick s1) e job]
            | Err m \<Rightarrow> resp = Response 400 (Failure msg) \<and> import_jobs s2 = js @ [job]
            | Throw m \<Rightarrow> resp = Response 500 (Failure ''Internal server error'')
                       \<and> import_jobs s2 = js @ [job])"
proof -
  have "map (\<lambda>j. if job_id j = i then f j else j) js = js" for f
    using assms(4) by (induction js) auto
  with assms(1-3) show ?thesis
    by (auto simp: refuse_def updateJob_def request_def split: response.splits)
qed

text \<open>
  C4, as the code has it. The handler creates the job record before it parses the file.
  A submission whose parsed row count is 0 or exceeds 5,000 is refused without a run
  being started and without any member, family or membership being touched, and the job
  record created for it stays. The handler then asks the database to mark that record
  failed. When the database carries the write out, the record is the created one with
  status failed, the completion time and an error log of exactly one entry, for row 0,
  that names the reason, and the answer has status 400 with the refusal message. When
  the database reports an error for the write, the record stays as created, pending, and
  the answer is the same. When the request throws, the record stays as created and the
  answer has status 500. A submission of 1 to 5,000 rows is answered with status 201,
  the new job's identifier and the row count, and the run is started on exactly those
  rows.
\<close>

theorem submission_row_limits:
  assumes f: "reqFile req = Some f" and u: "truthy (reqUser req)"
    and ins: "insertJob (originalname f) (path f) (the (reqUser req)) s = (Val (Inr job), s1)"
    and parse: "parseExcelFile (content f) = Inr rows"
    and post: "postExcel dateParses req s = (resp, outcome, s')"
  shows "(length rows = 0 \<or> 5000 < length rows \<longrightarrow>
            outcome = None
            \<and> user_profiles s' = user_profiles s \<and> families s' = families s
            \<and> group_memberships s' = group_memberships s
            \<and> status job = Pending
            \<and> (case responses s1 (tick s1) of
                 Ok x \<Rightarrow>
                   resp = Response 400 (Failure (refusalMessage (length rows)))
                   \<and> import_jobs s' = import_jobs s @
                        [job\<lparr>status := Failed,
                             error_log := Some [refusalEntry (length rows)],
                             completed_at := Some (tick s1)\<rparr>]
               | Err m \<Rightarrow>
                   resp = Response 400 (Failure (refusalMessage (length rows)))
                   \<and> import_jobs s' = import_jobs s @ [job]
               | Throw m \<Rightarrow>
                   resp = Response 500 (Failure ''Internal server error'')
                   \<and> import_jobs s' = import_jobs s @ [job]))
       \<and> (0 < length rows \<and> length rows \<le> 5000 \<longrightarrow>
            resp = Response 201 (Started (job_id job) (length rows))
            \<and> outcome = Some (fst (processImport dateParses (job_id job) rows (the (reqUser req)) s1))
            \<and> s' = snd (processImport dateParses (job_id job) rows (the (reqUser req)) s1))"
proof -
  note c = insertJob_created [OF ins]
  have acc: "0 < length rows \<and> length rows \<le> 5000 \<Longrightarrow>
      resp = Response 201 (Started (job_id job) (length rows))
      \<and> outcome = Some (fst (processImport dateParses (job_id job) rows (the (reqUser req)) s1))
      \<and> s' = snd (processImport dateParses (job_id job) rows (the (reqUser req)) s1)"
    using post f u ins parse by (auto simp: postExcel_def split: prod.splits)
  have ref: "length rows = 0 \<or> 5000 < length rows \<Longrightarrow>
      refuse (job_id job) (refusalEntry (length rows)) (refusalMessage (length rows)) s1
         = (resp, outcome, s')"
    using post f u ins parse
    by (auto simp: postExcel_def refusalEntry_def refusalMessage_def split: if_splits)
  have "length rows = 0 \<or> 5000 < length rows \<Longrightarrow>
            outcome = None
            \<and> user_profiles s' = user_profiles s \<and> families s' = families s
            \<and> group_memberships s' = group_memberships s
            \<and> status job = Pending
            \<and> (case responses s1 (tick s1) of
                 Ok x \<Rightarrow>
                   resp = Response 400 (Failure (refusalMessage (length rows)))
                   \<and> import_jobs s' = import_jobs s @
                        [job\<lparr>status := Failed,
                             error_log := Some [refusalEntry (length rows)],
                             completed_at := Some (tick s1)\<rparr>]
               | Err m \<Rightarrow>
                   resp = Response 400 (Failure (refusalMessage (length rows)))
                   \<and> import_jobs s' = import_jobs s @ [job]
               | Throw m \<Rightarrow>
                   resp = Response 500 (Failure ''Internal server error'')
                   \<and> import_jobs s' = import_jobs s @ [job])"
  proof -
    assume "length rows = 0 \<or> 5000 < length rows"
    note r = ref [OF this]
    have "import_jobs s1 = import_jobs s @ [job]" using c by simp
    from refuse_answer [OF r this refl] c show ?thesis
      by (simp add: refusedValues_def split: response.splits)
  qed
  with acc show ?thesis by blast
qed


theorem submission_row_limits_witness:
  "fst (postExcel anyDate (requestOf [(1, headerCells), (3, janeCells)]) store0)
     = Response 201 (Started ''id0'' 1)
   \<and> fst (snd (postExcel anyDate (requestOf [(1, headerCells)]) store0)) = None
   \<and> user_profiles (snd (snd (postExcel anyDate (requestOf [(1, headerCells)]) store0))) = []
   \<and> fst (postExcel anyDate (requestOf [(1, headerCells)]) store0)
     = Response 400 (Failure ''No valid data found in Excel file'')
   \<and> import_jobs (snd (snd (postExcel anyDate (requestOf [(1, headerCells)]) store0)))
     = [pendingJob\<lparr>job_id := ''id0'', status := Failed,
          error_log := Some [\<lparr>row = 0, error = ''No valid data rows found in Excel file'',
                               data = NoData\<rparr>],
          completed_at := Some 1\<rparr>]
   \<and> fst (postExcel anyDate (requestOf [(1, headerCells)]) store1)
     = Response 400 (Failure ''No valid data found in Excel file'')
   \<and> import_jobs (snd (snd (postExcel anyDate (requestOf [(1, headerCells)]) store1)))
     = [pendingJob\<lparr>job_id := ''id0''\<rparr>]"
proof -
  let ?f = "\<lambda>ws. \<lparr>originalname = ''members.xlsx'', path = ''/uploads/members.xlsx'',
                    content = Workbook (Some ws)\<rparr>"
  let ?job = "pendingJob\<lparr>job_id := ''id0''\<rparr>"
  let ?s1 = "store0\<lparr>tick := 1, import_jobs := [?job], job_versions := [?job]\<rparr>"
  let ?t1 = "store1\<lparr>tick := 1, import_jobs := [?job], job_versions := [?job]\<rparr>"
  have ins: "insertJob (originalname (?f ws)) (path (?f ws)) (the (reqUser (requestOf ws))) store0
      = (Val (Inr ?job), ?s1)" for ws
    by (simp add: insertJob_def request_def store0_def requestOf_def pendingJob_def showNat_def
        Let_def)
  have ins1: "insertJob (originalname (?f ws)) (path (?f ws)) (the (reqUser (requestOf ws))) store1
      = (Val (Inr ?job), ?t1)" for ws
    by (simp add: insertJob_def request_def store1_def store0_def requestOf_def pendingJob_def
        Let_def)
  have fl: "reqFile (requestOf ws) = Some (?f ws)" and usr: "truthy (reqUser (requestOf ws))" for ws
    by (simp_all add: requestOf_def truthy_def)
  have p1: "parseExcelFile (content (?f [(1, headerCells), (3, janeCells)])) = Inr [jane]"
    by code_simp
  have p0: "parseExcelFile (content (?f [(1, headerCells)])) = Inr []"
    by code_simp
  have ok: "responses ?s1 (tick ?s1) = Ok ''id1''"
    by (simp add: store0_def showNat_def)
  have err: "responses ?t1 (tick ?t1) = Err ''connection lost''"
    by (simp add: store1_def store0_def)
  have e0: "refusalEntry (length ([] :: excel_row list))
      = \<lparr>row = 0, error = ''No valid data rows found in Excel file'', data = NoData\<rparr>"
    and m0: "refusalMessage (length ([] :: excel_row list)) = ''No valid data found in Excel file''"
    by (simp_all add: refusalEntry_def refusalMessage_def)
  have "length [jane] = 1" by simp
  from submission_row_limits [OF fl usr ins p1, of anyDate
      "fst (postExcel anyDate (requestOf [(1, headerCells), (3, janeCells)]) store0)"
      "fst (snd (postExcel anyDate (requestOf [(1, headerCells), (3, janeCells)]) store0))"
      "snd (snd (postExcel anyDate (requestOf [(1, headerCells), (3, janeCells)]) store0))"]
  have a: "fst (postExcel anyDate (requestOf [(1, headerCells), (3, janeCells)]) store0)
     = Response 201 (Started ''id0'' 1)"
    by simp
  from submission_row_limits [OF fl usr ins p0, of anyDate
      "fst (postExcel anyDate (requestOf [(1, headerCells)]) store0)"
      "fst (snd (postExcel anyDate (requestOf [(1, headerCells)]) store0))"
      "snd (snd (postExcel anyDate (requestOf [(1, headerCells)]) store0))", unfolded ok e0 m0]
  have b: "fst (snd (postExcel anyDate (requestOf [(1, headerCells)]) store0)) = None
    \<and> user_profiles (snd (snd (postExcel anyDate (requestOf [(1, headerCells)]) store0))) = []
    \<and> fst (postExcel anyDate (requestOf [(1, headerCells)]) store0)
     = Response 400 (Failure ''No valid data found in Excel file'')
    \<and> import_jobs (snd (snd (postExcel anyDate (requestOf [(1, headerCells)]) store0)))
      = [pendingJob\<lparr>job_id := ''id0'', status := Failed,
          error_log := Some [\<lparr>row = 0, error = ''No valid data rows found in Excel file'',
                               data = NoData\<rparr>],
          completed_at := Some 1\<rparr>]"
    by (simp add: store0_def)
  from submission_row_limits [OF fl usr ins1 p0, of anyDate
      "fst (postExcel anyDate (requestOf [(1, headerCells)]) store1)"
      "fst (snd (postExcel anyDate (requestOf [(1, headerCells)]) store1))"
      "snd (snd (postExcel anyDate (requestOf [(1, headerCells)]) store1))", unfolded err e0 m0]
  have c: "fst (postExcel anyDate (requestOf [(1, headerCells)]) store1)
     = Response 400 (Failure ''No valid data found in Excel file'')
    \<and> import_jobs (snd (snd (postExcel anyDate (requestOf [(1, headerCells)]) store1)))
      = [pendingJob\<lparr>job_id := ''id0''\<rparr>]"
    by (simp add: store1_def store0_def)
  from a b c show ?thesis by simp
qed

text \<open>
  C4, as claimed, says that a submission of 0 rows is refused before any job record is
  created. For a sheet that holds only the header row the handler answers 400 and the
  store, which had no job, has a job record marked failed.
\<close>

theorem refused_submission_leaves_job_record:
  "import_jobs store0 = []
   \<and> (case postExcel anyDate (requestOf [(1, headerCells)]) store0 of
        (resp, outcome, s) \<Rightarrow> (resp, outcome, map counters (import_jobs s)))
     = (Response 400 (Failure ''No valid data found in Excel file''), None, [(Failed, 0, 0, 0)])"
proof -
  have "import_jobs store0 = []" by (simp add: store0_def)
  moreover have "(case postExcel anyDate (requestOf [(1, headerCells)]) store0 of
        (resp, outcome, s) \<Rightarrow> (resp, outcome, map counters (import_jobs s)))
     = (Response 400 (Failure ''No valid data found in Excel file''), None, [(Failed, 0, 0, 0)])"
    by code_simp
  ultimately show ?thesis by simp
qed

section \<open>What the requests of a row leave alone\<close>

lemma familiesKept_refl: "familiesKept s s"
  by (simp add: familiesKept_def)

lemma familiesKept_trans: "familiesKept s s1 \<Longrightarrow> familiesKept s1 s2 \<Longrightarrow> familiesKept s s2"
  by (auto simp: familiesKept_def)

lemma quiet_refl: "quiet s s"
  by (simp add: quiet_def sameJobs_def familiesKept_refl)

lemma quiet_trans: "quiet s s1 \<Longrightarrow> quiet s1 s2 \<Longrightarrow> quiet s s2"
  by (auto simp: quiet_def sameJobs_def intro: familiesKept_trans)

lemma quiet_tick: "quiet s (s\<lparr>tick := t\<rparr>)"
  by (simp add: quiet_def sameJobs_def familiesKept_def)

lemma memoKept_refl: "memoKept m m"
  by (simp add: memoKept_def)

lemma memoKept_trans: "memoKept m m1 \<Longrightarrow> memoKept m1 m2 \<Longrightarrow> memoKept m m2"
  by (simp add: memoKept_def)

lemma steady_refl: "steady rs rs"
  by (simp add: steady_def quiet_refl memoKept_refl)

lemma steady_trans: "steady rs rs1 \<Longrightarrow> steady rs1 rs2 \<Longrightarrow> steady rs rs2"
  by (auto simp: steady_def intro: quiet_trans memoKept_trans)

lemma selectGroups_quiet: "quiet s (snd (selectGroups s))"
  by (simp add: selectGroups_def request_def quiet_tick split: response.splits)

lemma selectUser_quiet: "quiet s (snd (selectUser e p s))"
  by (simp add: selectUser_def request_def quiet_tick split: response.splits)

lemma updateUser_quiet: "quiet s (snd (updateUser uid f s))"
  by (simp add: updateUser_def request_def quiet_def sameJobs_def familiesKept_def
      split: response.splits)

lemma insertUser_quiet: "quiet s (snd (insertUser f s))"
  by (simp add: insertUser_def request_def quiet_def sameJobs_def familiesKept_def Let_def
      split: response.splits)

lemma selectFamily_quiet: "quiet s (snd (selectFamily name s))"
  by (simp add: selectFamily_def request_def quiet_tick split: response.splits)

lemma insertFamily_quiet: "quiet s (snd (insertFamily name a p s))"
  by (simp add: insertFamily_def request_def quiet_def sameJobs_def familiesKept_def Let_def
      split: response.splits)

lemma updateUserFamily_quiet: "quiet s (snd (updateUserFamily uid fid s))"
  by (simp add: updateUserFamily_def request_def quiet_def sameJobs_def familiesKept_def
      split: response.splits)

lemma familyCore_head:
  "familyCore \<circ> (\<lambda>f. if P f then f\<lparr>head_of_family_id := h\<rparr> else f) = familyCore"
  by (rule ext) (simp add: familyCore_def)

lemma updateFamilyHead_quiet: "quiet s (snd (updateFamilyHead fid uid s))"
  by (simp add: updateFamilyHead_def request_def quiet_def sameJobs_def familiesKept_def
      familyCore_head split: response.splits)

lemma upsertMembership_quiet: "quiet s (snd (upsertMembership gid uid s))"
  by (simp add: upsertMembership_def request_def quiet_def sameJobs_def familiesKept_def
      split: response.splits)

lemma quiet_snd: "f s = (res, s1) \<Longrightarrow> quiet s (snd (f s)) \<Longrightarrow> quiet s s1"
  by simp


lemma selectUser_quietD: "selectUser e p s = (a, s1) \<Longrightarrow> quiet s s1"
  using selectUser_quiet [of s e p] by simp

lemma updateUser_quietD: "updateUser uid f s = (a, s1) \<Longrightarrow> quiet s s1"
  using updateUser_quiet [of s uid f] by simp

lemma insertUser_quietD: "insertUser f s = (a, s1) \<Longrightarrow> quiet s s1"
  using insertUser_quiet [of s f] by simp

lemma selectFamily_quietD: "selectFamily name s = (a, s1) \<Longrightarrow> quiet s s1"
  using selectFamily_quiet [of s name] by simp

lemma insertFamily_quietD: "insertFamily name ad p s = (a, s1) \<Longrightarrow> quiet s s1"
  using insertFamily_quiet [of s name ad p] by simp

lemma updateUserFamily_quietD: "updateUserFamily uid fid s = (a, s1) \<Longrightarrow> quiet s s1"
  using updateUserFamily_quiet [of s uid fid] by simp

lemma updateFamilyHead_quietD: "updateFamilyHead fid uid s = (a, s1) \<Longrightarrow> quiet s s1"
  using updateFamilyHead_quiet [of s fid uid] by simp

lemma upsertMembership_quietD: "upsertMembership gid uid s = (a, s1) \<Longrightarrow> quiet s s1"
  using upsertMembership_quiet [of s gid uid] by simp

lemma resolveMember_familyMap: "familyMap (snd (resolveMember r n rs)) = familyMap rs"
  by (simp add: resolveMember_def pushError_def
      split: prod.splits outcome.splits option.splits sum.splits)

lemma resolveMember_quiet: "quiet (db rs) (db (snd (resolveMember r n rs)))"
  by (auto simp: resolveMember_def pushError_def
      split: prod.splits outcome.splits option.splits sum.splits
      intro: selectUser_quietD
        quiet_trans [OF selectUser_quietD updateUser_quietD]
        quiet_trans [OF selectUser_quietD insertUser_quietD])

lemma resolveMember_steady: "resolveMember r n rs = (a, rs1) \<Longrightarrow> steady rs rs1"
  using resolveMember_quiet [of rs r n] resolveMember_familyMap [of r n rs]
  by (simp add: steady_def memoKept_refl)


lemma resolveFamily_familyMap:
  "memoKept (familyMap rs) (familyMap (snd (resolveFamily r n rs)))"
  by (auto simp: resolveFamily_def pushError_def memoFamily_def memoKept_def truthy_def
      split: prod.splits outcome.splits option.splits sum.splits)

lemma resolveFamily_quiet: "quiet (db rs) (db (snd (resolveFamily r n rs)))"
  by (auto simp: resolveFamily_def pushError_def memoFamily_def quiet_refl
      split: prod.splits outcome.splits option.splits sum.splits
      intro: selectFamily_quietD quiet_trans [OF selectFamily_quietD insertFamily_quietD])

lemma resolveFamily_steady: "resolveFamily r n rs = (a, rs1) \<Longrightarrow> steady rs rs1"
  using resolveFamily_quiet [of rs r n] resolveFamily_familyMap [of rs r n]
  by (simp add: steady_def)

lemma linkFamily_quiet: "linkFamily r uid fid s = (a, s1) \<Longrightarrow> quiet s s1"
  by (auto simp: linkFamily_def quiet_refl split: prod.splits outcome.splits if_splits
      intro: updateUserFamily_quietD
        quiet_trans [OF updateUserFamily_quietD updateFamilyHead_quietD])

lemma upsertGroups_quiet: "upsertGroups g uid names s = (a, s1) \<Longrightarrow> quiet s s1"
proof (induction names arbitrary: s)
  case Nil
  then show ?case by (simp add: quiet_refl)
next
  case (Cons n ns)
  show ?case
  proof (cases "truthy (g n)")
    case False
    with Cons show ?thesis by simp
  next
    case True
    obtain e s2 where u: "upsertMembership (the (g n)) uid s = (e, s2)"
      by (cases "upsertMembership (the (g n)) uid s")
    show ?thesis
    proof (cases e)
      case (Exn m)
      with Cons.prems True u have "s1 = s2" by simp
      with upsertMembership_quietD [OF u] show ?thesis by simp
    next
      case (Val x)
      with Cons.prems True u have "upsertGroups g uid ns s2 = (a, s1)" by simp
      from quiet_trans [OF upsertMembership_quietD [OF u] Cons.IH [OF this]]
      show ?thesis .
    qed
  qed
qed

lemma handleGroups_quiet: "handleGroups g r uid s = (a, s1) \<Longrightarrow> quiet s s1"
  by (auto simp: handleGroups_def quiet_refl split: if_splits intro: upsertGroups_quiet)

lemma tryRow_cases:
  assumes t: "tryRow dateParses g r n rs = (res, rs')"
  obtains
    (invalid) e where "validateRow dateParses r n = Some e" "res = Continue"
      "rs' = rs\<lparr>errors := errors rs @ [e]\<rparr>"
  | (member) a where "validateRow dateParses r n = None" "resolveMember r n rs = (a, rs')"
      "res \<noteq> Next ()"
  | (family) uid rs1 b where "validateRow dateParses r n = None"
      "resolveMember r n rs = (Next uid, rs1)" "resolveFamily r n rs1 = (b, rs')"
      "res \<noteq> Next ()"
  | (link) uid rs1 fid rs2 m s3 where "validateRow dateParses r n = None"
      "resolveMember r n rs = (Next uid, rs1)" "resolveFamily r n rs1 = (Next fid, rs2)"
      "linkFamily r uid fid (db rs2) = (Exn m, s3)" "res = Raised m" "rs' = rs2\<lparr>db := s3\<rparr>"
  | (groups) uid rs1 fid rs2 s3 m s4 where "validateRow dateParses r n = None"
      "resolveMember r n rs = (Next uid, rs1)" "resolveFamily r n rs1 = (Next fid, rs2)"
      "linkFamily r uid fid (db rs2) = (Val (), s3)"
      "handleGroups g r uid s3 = (Exn m, s4)" "res = Raised m" "rs' = rs2\<lparr>db := s4\<rparr>"
  | (succeeded) uid rs1 fid rs2 s3 s4 where "validateRow dateParses r n = None"
      "resolveMember r n rs = (Next uid, rs1)" "resolveFamily r n rs1 = (Next fid, rs2)"
      "linkFamily r uid fid (db rs2) = (Val (), s3)"
      "handleGroups g r uid s3 = (Val (), s4)" "res = Next ()"
      "rs' = rs2\<lparr>db := s4, successCount := successCount rs2 + 1\<rparr>"
proof (cases "validateRow dateParses r n")
  case (Some e)
  with t invalid show ?thesis by (auto simp: tryRow_def)
next
  case None
  obtain a rs1 where m: "resolveMember r n rs = (a, rs1)"
    by (cases "resolveMember r n rs")
  show ?thesis
  proof (cases a)
    case Continue
    with t None m member show ?thesis by (auto simp: tryRow_def)
  next
    case (Raised x)
    with t None m member show ?thesis by (auto simp: tryRow_def)
  next
    case (Next uid)
    note m = m [unfolded Next]
    obtain b rs2 where f: "resolveFamily r n rs1 = (b, rs2)"
      by (cases "resolveFamily r n rs1")
    show ?thesis
    proof (cases b)
      case Continue
      with t None m f family show ?thesis by (auto simp: tryRow_def)
    next
      case (Raised x)
      with t None m f family show ?thesis by (auto simp: tryRow_def)
    next
      case (Next fid)
      note f = f [unfolded Next]
      obtain c s3 where l: "linkFamily r uid fid (db rs2) = (c, s3)"
        by (cases "linkFamily r uid fid (db rs2)")
      show ?thesis
      proof (cases c)
        case (Exn x)
        with t None m f l link show ?thesis by (auto simp: tryRow_def)
      next
        case (Val u)
        note l = l [unfolded Val]
        obtain d s4 where h: "handleGroups g r uid s3 = (d, s4)"
          by (cases "handleGroups g r uid s3")
        show ?thesis
        proof (cases d)
          case (Exn x)
          with t None m f l h groups show ?thesis by (auto simp: tryRow_def)
        next
          case (Val v)
          with t None m f l h succeeded show ?thesis by (auto simp: tryRow_def)
        qed
      qed
    qed
  qed
qed

lemma steady_db: "steady rs rs1 \<Longrightarrow> quiet (db rs1) s \<Longrightarrow> familyMap rs2 = familyMap rs1 \<Longrightarrow>
    db rs2 = s \<Longrightarrow> steady rs rs2"
  by (auto simp: steady_def intro: quiet_trans)

lemma tryRow_steady:
  assumes "tryRow dateParses g r n rs = (res, rs')"
  shows "steady rs rs'"
  using assms
proof (cases rule: tryRow_cases)
  case (invalid e)
  then show ?thesis by (simp add: steady_def quiet_refl memoKept_refl)
next
  case (member a)
  then show ?thesis by (simp add: resolveMember_steady)
next
  case (family uid rs1 b)
  then show ?thesis by (blast intro: steady_trans resolveMember_steady resolveFamily_steady)
next
  case (link uid rs1 fid rs2 m s3)
  have "steady rs rs2"
    using link by (blast intro: steady_trans resolveMember_steady resolveFamily_steady)
  moreover have "quiet (db rs2) s3" using link by (blast intro: linkFamily_quiet)
  ultimately show ?thesis using link by (auto intro: steady_db)
next
  case (groups uid rs1 fid rs2 s3 m s4)
  have "steady rs rs2"
    using groups by (blast intro: steady_trans resolveMember_steady resolveFamily_steady)
  moreover have "quiet (db rs2) s4"
    using groups by (blast intro: quiet_trans linkFamily_quiet handleGroups_quiet)
  ultimately show ?thesis using groups by (auto intro: steady_db)
next
  case (succeeded uid rs1 fid rs2 s3 s4)
  have "steady rs rs2"
    using succeeded by (blast intro: steady_trans resolveMember_steady resolveFamily_steady)
  moreover have "quiet (db rs2) s4"
    using succeeded by (blast intro: quiet_trans linkFamily_quiet handleGroups_quiet)
  ultimately show ?thesis using succeeded by (auto intro: steady_db)
qed

section \<open>Group memberships\<close>










lemma distinct_pair_unique:
  assumes "distinct (map pairOf xs)" and "m \<in> set xs" and "m' \<in> set xs"
    and "samePair gid uid m" and "samePair gid uid m'"
  shows "m' = m"
proof -
  from assms(1) have "inj_on pairOf (set xs)" by (simp add: distinct_map)
  moreover from assms(4,5) have "pairOf m' = pairOf m" by (simp add: samePair_def pairOf_def)
  ultimately show ?thesis using assms(2,3) by (auto dest: inj_onD)
qed




















section \<open>The versions of a job row\<close>

lemma onlyCounters_refl: "onlyCounters x x"
  by (simp add: onlyCounters_def)

lemma onlyCounters_trans: "onlyCounters x y \<Longrightarrow> onlyCounters y z \<Longrightarrow> onlyCounters x z"
  by (simp add: onlyCounters_def)

lemma onlyCounters_progressValues: "onlyCounters x (progressValues rs x)"
  by (simp add: onlyCounters_def progressValues_def)

lemma filter_map_same_id:
  assumes "\<And>y. job_id (f y) = job_id y"
  shows "filter (\<lambda>x. job_id x = j) (map (\<lambda>y. if job_id y = j then f y else y) js)
           = map f (filter (\<lambda>x. job_id x = j) js)"
  by (induction js) (simp_all add: assms)

lemma updateJob_versions:
  assumes id: "\<And>y. job_id (f y) = job_id y"
  shows "(jobRows j (snd (updateJob j f s)) = jobRows j s
            \<and> job_versions (snd (updateJob j f s)) = job_versions s
            \<and> fst (updateJob j f s) \<noteq> Val None)
         \<or> (jobRows j (snd (updateJob j f s)) = map f (jobRows j s)
            \<and> job_versions (snd (updateJob j f s)) = job_versions s @ map f (jobRows j s)
            \<and> fst (updateJob j f s) = Val None)"
  by (simp add: updateJob_def request_def jobRows_def filter_map_same_id [OF id]
      split: response.splits)

lemma updateJob_single:
  assumes id: "\<And>y. job_id (f y) = job_id y"
    and x: "jobRows j s = [x]" and u: "updateJob j f s = (res, s1)"
  obtains (unchanged) "jobRows j s1 = [x]" "job_versions s1 = job_versions s" "res \<noteq> Val None"
  | (written) "jobRows j s1 = [f x]" "job_versions s1 = job_versions s @ [f x]" "res = Val None"
  using updateJob_versions [of f j s, OF id] x u by auto

lemma quiet_jobs:
  "quiet s s1 \<Longrightarrow> jobRows j s1 = jobRows j s \<and> job_versions s1 = job_versions s"
  by (simp add: quiet_def sameJobs_def jobRows_def)

lemma iteration_cases:
  assumes it: "iteration dateParses g j r i rs = (res, rs')"
  obtains
    (skipped) "tryRow dateParses g r (i + 2) rs = (Continue, rs')" "res = None"
  | (counted) a rs1 where "tryRow dateParses g r (i + 2) rs = (a, rs1)" "a \<noteq> Continue"
      "db rs' = db rs1" "familyMap rs' = familyMap rs1" "res = None"
  | (flushed) a rs1 rs3 e where "tryRow dateParses g r (i + 2) rs = (a, rs1)" "a \<noteq> Continue"
      "db rs3 = db rs1" "familyMap rs' = familyMap rs1"
      "updateJob j (progressValues rs3) (db rs3) = (e, db rs')"
proof -
  obtain a rs1 where t: "tryRow dateParses g r (i + 2) rs = (a, rs1)"
    by (cases "tryRow dateParses g r (i + 2) rs")
  define rs2 where "rs2 = (case a of
      Raised m \<Rightarrow> pushError (i + 2) (''Processing error: '' @ m) r rs1 | _ \<Rightarrow> rs1)"
  define rs3 where "rs3 = rs2\<lparr>processedCount := processedCount rs2 + 1\<rparr>"
  have d3: "db rs3 = db rs1" and f3: "familyMap rs3 = familyMap rs1"
    by (simp_all add: rs3_def rs2_def pushError_def split: step.splits)
  show thesis
  proof (cases "a = Continue")
    case True
    with it t skipped show ?thesis by (simp add: iteration_def)
  next
    case False
    have unf: "iteration dateParses g j r i rs =
        (if processedCount rs3 mod 10 = 0 then
           (case updateJob j (progressValues rs3) (db rs3) of
              (Exn m, s4) \<Rightarrow> (Some m, rs3\<lparr>db := s4\<rparr>)
            | (Val e, s4) \<Rightarrow> (None, rs3\<lparr>db := s4\<rparr>))
         else (None, rs3))"
      unfolding iteration_def Let_def t rs3_def rs2_def using False
      by (cases a) (simp_all cong: prod.case_cong outcome.case_cong)
    show ?thesis
    proof (cases "processedCount rs3 mod 10 = 0")
      case False
      with it unf have "rs' = rs3" "res = None" by simp_all
      with counted [OF t \<open>a \<noteq> Continue\<close>] d3 f3 show ?thesis by simp
    next
      case True
      obtain e s4 where u: "updateJob j (progressValues rs3) (db rs3) = (e, s4)"
        by (cases "updateJob j (progressValues rs3) (db rs3)")
      from it unf True u have "rs' = rs3\<lparr>db := s4\<rparr>" by (cases e) simp_all
      with flushed [OF t \<open>a \<noteq> Continue\<close> d3, of e] f3 u show ?thesis by simp
    qed
  qed
qed

lemma grows_trans:
  "grows j x s n1 s1 \<Longrightarrow> grows j (last (x # n1)) s1 n2 s2 \<Longrightarrow> grows j x s (n1 @ n2) s2"
  by (auto simp: grows_def)

lemma grows_quiet: "jobRows j s = [x] \<Longrightarrow> quiet s s1 \<Longrightarrow> grows j x s [] s1"
  using quiet_jobs [of s s1 j] by (simp add: grows_def)

lemma grows_updateJob:
  assumes id: "\<And>y. job_id (f y) = job_id y"
    and x: "jobRows j s = [x]" and u: "updateJob j f s = (res, s1)"
  shows "grows j x s [] s1 \<and> res \<noteq> Val None \<or> grows j x s [f x] s1 \<and> res = Val None"
  using id x u by (cases rule: updateJob_single) (simp_all add: grows_def x)

lemma grows_db: "grows j x s new (db rs1) \<Longrightarrow> db rs2 = db rs1 \<Longrightarrow> grows j x s new (db rs2)"
  by simp

lemma iteration_grows:
  assumes x: "jobRows j (db rs) = [x]" and it: "iteration dateParses g j r i rs = (res, rs')"
  shows "\<exists>new. grows j x (db rs) new (db rs') \<and> (\<forall>v\<in>set new. onlyCounters x v)"
proof -
  have q: "grows j x (db rs) [] (db rs1)"
    if "tryRow dateParses g r (i + 2) rs = (a, rs1)" for a rs1
  proof -
    from tryRow_steady [OF that] have "quiet (db rs) (db rs1)" by (simp add: steady_def)
    with x show ?thesis by (rule grows_quiet)
  qed
  from it show ?thesis
  proof (cases rule: iteration_cases)
    case skipped
    from q [OF skipped(1)] show ?thesis by auto
  next
    case (counted a rs1)
    from q [OF counted(1)] counted(3) have "grows j x (db rs) [] (db rs')" by simp
    then show ?thesis by auto
  next
    case (flushed a rs1 rs3 e)
    have id: "\<And>y. job_id (progressValues rs3 y) = job_id y"
      by (simp add: progressValues_def)
    from q [OF flushed(1)] flushed(3) have g3: "grows j x (db rs) [] (db rs3)" by simp
    then have x3: "jobRows j (db rs3) = [x]" by (simp add: grows_def)
    from grows_updateJob [OF id x3 flushed(5)]
    have "grows j x (db rs3) [] (db rs') \<or> grows j x (db rs3) [progressValues rs3 x] (db rs')"
      by blast
    then show ?thesis
    proof
      assume "grows j x (db rs3) [] (db rs')"
      with grows_trans [OF g3] have "grows j x (db rs) [] (db rs')" by force
      then show ?thesis by auto
    next
      assume "grows j x (db rs3) [progressValues rs3 x] (db rs')"
      with grows_trans [OF g3] have "grows j x (db rs) [progressValues rs3 x] (db rs')" by force
      moreover have "\<forall>v\<in>set [progressValues rs3 x]. onlyCounters x v"
        by (simp add: onlyCounters_progressValues)
      ultimately show ?thesis by blast
    qed
  qed
qed

lemma last_onlyCounters:
  "\<forall>v\<in>set new. onlyCounters x v \<Longrightarrow> onlyCounters x (last (x # new))"
  by (cases "new = []") (simp_all add: onlyCounters_refl)

lemma processRows_grows:
  assumes "jobRows j (db rs) = [x]" and "processRows dateParses g j i rows rs = (res, rs')"
  shows "\<exists>new. grows j x (db rs) new (db rs') \<and> (\<forall>v\<in>set new. onlyCounters x v)"
  using assms
proof (induction rows arbitrary: i rs x)
  case Nil
  then have "grows j x (db rs) [] (db rs')" by (simp add: grows_def)
  then show ?case by auto
next
  case (Cons r rows)
  obtain a rs1 where it: "iteration dateParses g j r i rs = (a, rs1)"
    by (cases "iteration dateParses g j r i rs")
  from iteration_grows [OF Cons.prems(1) it] obtain n1
    where 1: "grows j x (db rs) n1 (db rs1)" "\<forall>v\<in>set n1. onlyCounters x v"
    by blast
  show ?case
  proof (cases a)
    case (Some m)
    with Cons.prems(2) it have "rs' = rs1" by simp
    with 1 show ?thesis by blast
  next
    case None
    with Cons.prems(2) it have p: "processRows dateParses g j (i + 1) rows rs1 = (res, rs')"
      by simp
    from 1(1) have "jobRows j (db rs1) = [last (x # n1)]" by (simp add: grows_def)
    from Cons.IH [OF this p] obtain n2
      where 2: "grows j (last (x # n1)) (db rs1) n2 (db rs')"
        "\<forall>v\<in>set n2. onlyCounters (last (x # n1)) v"
      by blast
    from last_onlyCounters [OF 1(2)] 2(2) have "\<forall>v\<in>set n2. onlyCounters x v"
      by (blast intro: onlyCounters_trans)
    with 1(2) have "\<forall>v\<in>set (n1 @ n2). onlyCounters x v" by auto
    with grows_trans [OF 1(1) 2(1)] show ?thesis by blast
  qed
qed


lemma grows_step:
  "grows j x s n1 s1 \<Longrightarrow> grows j y s1 n2 s2 \<Longrightarrow> y = last (x # n1) \<Longrightarrow> n = n1 @ n2
     \<Longrightarrow> grows j x s n s2"
  by (auto simp: grows_def)

lemma grows_row: "grows j x s new s1 \<Longrightarrow> jobRows j s1 = [last (x # new)]"
  by (simp add: grows_def)

lemma finalValues_id: "job_id (finalValues st rs y) = job_id y"
  by (simp add: finalValues_def)

lemma tryImport_grows:
  assumes x: "jobRows j (db rs) = [x]" and t: "tryImport dateParses j rows rs = (res, rs')"
  obtains pre mid fin where "grows j x (db rs) (pre @ mid @ fin) (db rs')"
    "pre = [] \<or> pre = [x\<lparr>status := Processing, started_at := Some (tick (db rs)),
                              total_records := length rows\<rparr>]"
    "\<forall>v\<in>set mid. onlyCounters (last (x # pre)) v"
    "fin = [] \<or> res = None
            \<and> (\<exists>rsf. fin = [finalValues Completed rsf (last (x # pre @ mid))])"
proof -
  let ?start = "\<lambda>y. y\<lparr>status := Processing, started_at := Some (tick (db rs)),
                         total_records := length rows\<rparr>"
  obtain e1 s1 where u1: "updateJob j ?start (db rs) = (e1, s1)"
    by (cases "updateJob j ?start (db rs)")
  have "\<And>y. job_id (?start y) = job_id y" by simp
  from grows_updateJob [OF this x u1] obtain pre
    where pre: "grows j x (db rs) pre s1" "pre = [] \<or> pre = [?start x]"
    by blast
  let ?x1 = "last (x # pre)"
  show thesis
  proof (cases e1)
    case (Exn m)
    with t u1 have "db rs' = s1" by (auto simp: tryImport_def)
    with pre(1) have "grows j x (db rs) (pre @ [] @ []) (db rs')" by simp
    then show thesis by (rule that) (use pre(2) in simp_all)
  next
    case (Val e)
    obtain g2 s2 where sg: "selectGroups s1 = (g2, s2)"
      by (cases "selectGroups s1")
    from selectGroups_quiet [of s1] sg have "quiet s1 s2" by simp
    from grows_quiet [OF grows_row [OF pre(1)] this]
    have "grows j ?x1 s1 [] s2" .
    from grows_step [OF pre(1) this refl, of pre]
    have g2: "grows j x (db rs) pre s2" by simp
    show thesis
    proof (cases g2)
      case (Exn m)
      with t u1 Val sg have "db rs' = s2" by (auto simp: tryImport_def)
      with g2 have "grows j x (db rs) (pre @ [] @ []) (db rs')" by simp
      then show thesis by (rule that) (use pre(2) in simp_all)
    next
      case gs: (Val gs)
      obtain r3 rs3
        where pr: "processRows dateParses (buildGroupMap gs) j 0 rows (rs\<lparr>db := s2\<rparr>) = (r3, rs3)"
        by (cases "processRows dateParses (buildGroupMap gs) j 0 rows (rs\<lparr>db := s2\<rparr>)")
      have "jobRows j (db (rs\<lparr>db := s2\<rparr>)) = [?x1]"
        using grows_row [OF g2] by simp
      from processRows_grows [OF this pr] obtain mid
        where mid: "grows j ?x1 s2 mid (db rs3)" "\<forall>v\<in>set mid. onlyCounters ?x1 v"
        by (elim exE conjE) simp
      from grows_step [OF g2 mid(1) refl refl]
      have g3: "grows j x (db rs) (pre @ mid) (db rs3)" .
      let ?x2 = "last (x # pre @ mid)"
      show thesis
      proof (cases r3)
        case (Some m)
        with t u1 Val sg gs pr have "rs' = rs3" by (auto simp: tryImport_def)
        with g3 have "grows j x (db rs) (pre @ mid @ []) (db rs')" by simp
        then show thesis by (rule that) (use pre(2) mid(2) in simp_all)
      next
        case None
        obtain e4 s4 where u4: "updateJob j (finalValues Completed rs3) (db rs3) = (e4, s4)"
          by (cases "updateJob j (finalValues Completed rs3) (db rs3)")
        from t u1 Val sg gs pr None u4
        have r: "db rs' = s4" "e4 \<noteq> Val None \<or> res = None"
          by (cases e4; auto simp: tryImport_def)+
        from grows_updateJob [OF finalValues_id grows_row [OF g3] u4] r(2)
        obtain fin where fin: "grows j ?x2 (db rs3) fin s4"
          "fin = [] \<or> res = None \<and> fin = [finalValues Completed rs3 ?x2]"
          by blast
        from grows_step [OF g3 fin(1) refl refl] r(1)
        have "grows j x (db rs) (pre @ mid @ fin) (db rs')" by simp
        then show thesis by (rule that) (use pre(2) mid(2) fin(2) in auto)
      qed
    qed
  qed
qed

lemma processImport_grows:
  assumes x: "jobRows j s = [x]" and p: "processImport dateParses j rows createdBy s = (res, s')"
  obtains pre mid fin where "grows j x s (pre @ mid @ fin) s'"
    "pre = [] \<or> pre = [x\<lparr>status := Processing, started_at := Some (tick s),
                              total_records := length rows\<rparr>]"
    "\<forall>v\<in>set mid. onlyCounters (last (x # pre)) v"
    "fin = [] \<or> (\<exists>st rsf. (st = Completed \<or> st = Failed)
            \<and> fin = [finalValues st rsf (last (x # pre @ mid))])"
proof -
  let ?rs = "\<lparr>db = s, errors = [], familyMap = Map.empty, processedCount = 0, successCount = 0\<rparr>"
  obtain r1 rs1 where t: "tryImport dateParses j rows ?rs = (r1, rs1)"
    by (cases "tryImport dateParses j rows ?rs")
  have "jobRows j (db ?rs) = [x]" using x by simp
  from this t obtain pre mid fin
    where g: "grows j x (db ?rs) (pre @ mid @ fin) (db rs1)"
      and pre: "pre = [] \<or> pre = [x\<lparr>status := Processing, started_at := Some (tick (db ?rs)),
                                total_records := length rows\<rparr>]"
      and mid: "\<forall>v\<in>set mid. onlyCounters (last (x # pre)) v"
      and fin: "fin = [] \<or> r1 = None
            \<and> (\<exists>rsf. fin = [finalValues Completed rsf (last (x # pre @ mid))])"
    by (rule tryImport_grows)
  from g have g: "grows j x s (pre @ mid @ fin) (db rs1)" by simp
  from pre have pre: "pre = [] \<or> pre = [x\<lparr>status := Processing, started_at := Some (tick s),
                                total_records := length rows\<rparr>]" by simp
  show thesis
  proof (cases r1)
    case None
    with p t have "s' = db rs1" by (auto simp: processImport_def)
    with g have "grows j x s (pre @ mid @ fin) s'" by simp
    moreover from fin have "fin = [] \<or> (\<exists>st rsf. (st = Completed \<or> st = Failed)
            \<and> fin = [finalValues st rsf (last (x # pre @ mid))])"
      by blast
    ultimately show thesis using pre mid by (intro that)
  next
    case (Some m)
    with fin have f0: "fin = []" by simp
    obtain e2 s2 where u: "updateJob j (finalValues Failed rs1) (db rs1) = (e2, s2)"
      by (cases "updateJob j (finalValues Failed rs1) (db rs1)")
    from p t Some u have s': "s' = s2" by (cases e2) (auto simp: processImport_def)
    from g f0 have g1: "grows j x s (pre @ mid) (db rs1)" by simp
    from grows_updateJob [OF finalValues_id grows_row [OF g1] u]
    obtain fin' where fin': "grows j (last (x # pre @ mid)) (db rs1) fin' s2"
      "fin' = [] \<or> fin' = [finalValues Failed rs1 (last (x # pre @ mid))]"
      by blast
    from grows_step [OF g1 fin'(1) refl refl] s'
    have "grows j x s (pre @ mid @ fin') s'" by simp
    moreover from fin'(2) have "fin' = [] \<or> (\<exists>st rsf. (st = Completed \<or> st = Failed)
            \<and> fin' = [finalValues st rsf (last (x # pre @ mid))])"
      by blast
    ultimately show thesis using pre mid by (intro that)
  qed
qed


lemma forward_const:
  assumes "\<not> terminal a" and "\<forall>v\<in>set xs. v = a"
    and "ys = [] \<or> (\<exists>t. ys = [t] \<and> rank a \<le> rank t)"
  shows "forward (a # xs @ ys)"
  using assms(2)
proof (induction xs)
  case Nil
  from assms(1,3) show ?case by auto
next
  case (Cons v xs)
  then have "v = a" and "forward (a # xs @ ys)" by simp_all
  with assms(1) show ?case by simp
qed

lemma run_versions_forward:
  assumes st: "status x = Pending"
    and pre: "pre = [] \<or> pre = [x\<lparr>status := Processing, started_at := t, total_records := n\<rparr>]"
    and mid: "\<forall>v\<in>set mid. onlyCounters (last (x # pre)) v"
    and fin: "fin = [] \<or> (\<exists>st rsf. (st = Completed \<or> st = Failed)
            \<and> fin = [finalValues st rsf (last (x # pre @ mid))])"
  shows "forward (map status (x # pre @ mid @ fin))"
    and "\<forall>v\<in>set (x # pre @ mid @ fin). job_id v = job_id x"
proof -
  let ?b = "status (last (x # pre))"
  have m: "\<forall>v\<in>set (map status mid). v = ?b"
    using mid by (simp add: onlyCounters_def)
  have f: "map status fin = [] \<or> (\<exists>t. map status fin = [t] \<and> rank ?b \<le> rank t)"
    using fin pre st by (auto simp: finalValues_def)
  from pre show "forward (map status (x # pre @ mid @ fin))"
  proof
    assume p: "pre = []"
    with st have "\<not> terminal ?b" by (simp add: terminal_def)
    from forward_const [OF this m f] p show ?thesis by simp
  next
    assume p: "pre = [x\<lparr>status := Processing, started_at := t, total_records := n\<rparr>]"
    then have "\<not> terminal ?b" by (simp add: terminal_def)
    from forward_const [OF this m f] p st show ?thesis by (simp add: terminal_def)
  qed
  have i1: "\<forall>v\<in>set (x # pre). job_id v = job_id x"
    using pre by auto
  then have "job_id (last (x # pre)) = job_id x"
    using pre by auto
  with mid have i2: "\<forall>v\<in>set mid. job_id v = job_id x"
    by (simp add: onlyCounters_def)
  with i1 have "\<forall>v\<in>set (x # pre @ mid). job_id v = job_id x" by auto
  moreover have "last (x # pre @ mid) \<in> set (x # pre @ mid)" by (rule last_in_set) simp
  ultimately have "job_id (last (x # pre @ mid)) = job_id x" by blast
  with fin have "\<forall>v\<in>set fin. job_id v = job_id x"
    by (auto simp: finalValues_id)
  with i1 i2 show "\<forall>v\<in>set (x # pre @ mid @ fin). job_id v = job_id x" by auto
qed

lemma insertJob_versions:
  "insertJob name url creator s = (res, s1) \<Longrightarrow>
     (job_versions s1 = job_versions s \<and> (\<forall>job. res \<noteq> Val (Inr job)))
     \<or> (\<exists>job. res = Val (Inr job) \<and> job_versions s1 = job_versions s @ [job]
           \<and> jobRows (job_id job) s1 = [job] \<and> status job = Pending
           \<and> job_id job \<notin> set (map job_id (import_jobs s)))"
  by (auto simp: insertJob_def request_def jobRows_def Let_def filter_empty_conv
      split: response.splits if_splits)

section \<open>Progress writes and the error log\<close>

text \<open>
  C10. In a run on a job with one row in the store, the versions of the job row that the
  run persists are, in order: at most one written at the start (status processing, start
  time, total), then the periodic progress writes, each of which differs from the
  version before the loop in nothing but the three counters, then at most one terminal
  write (completed or failed), which carries an error log. Every version before the
  terminal write has the error log that the row had when the run began.
\<close>

theorem progress_writes_keep_error_log:
  assumes "jobRows j s = [x]"
    and "processImport dateParses j rows createdBy s = (res, s')"
  shows "\<exists>start progress fin.
           job_versions s' = job_versions s @ start @ progress @ fin
           \<and> (start = [] \<or> start = [x\<lparr>status := Processing, started_at := Some (tick s),
                                        total_records := length rows\<rparr>])
           \<and> (\<forall>v\<in>set progress. onlyCounters (last (x # start)) v)
           \<and> (\<forall>v\<in>set (start @ progress). error_log v = error_log x)
           \<and> length fin \<le> 1
           \<and> (\<forall>v\<in>set fin. terminal (status v) \<and> error_log v \<noteq> None)"
proof -
  from assms obtain pre mid fin
    where g: "grows j x s (pre @ mid @ fin) s'"
      and pre: "pre = [] \<or> pre = [x\<lparr>status := Processing, started_at := Some (tick s),
                              total_records := length rows\<rparr>]"
      and mid: "\<forall>v\<in>set mid. onlyCounters (last (x # pre)) v"
      and fin: "fin = [] \<or> (\<exists>st rsf. (st = Completed \<or> st = Failed)
            \<and> fin = [finalValues st rsf (last (x # pre @ mid))])"
    by (rule processImport_grows)
  from g have 1: "job_versions s' = job_versions s @ pre @ mid @ fin"
    by (simp add: grows_def)
  from pre have e1: "\<forall>v\<in>set pre. error_log v = error_log x" by auto
  then have "error_log (last (x # pre)) = error_log x" using pre by auto
  with mid have "\<forall>v\<in>set mid. error_log v = error_log x"
    by (simp add: onlyCounters_def)
  with e1 have 4: "\<forall>v\<in>set (pre @ mid). error_log v = error_log x" by auto
  from fin have 5: "length fin \<le> 1"
    and 6: "\<forall>v\<in>set fin. terminal (status v) \<and> error_log v \<noteq> None"
    by (auto simp: finalValues_def terminal_def)
  from 1 pre mid 4 5 6 show ?thesis by blast
qed

theorem progress_writes_keep_error_log_witness:
  "\<exists>start progress fin.
     job_versions (snd (processImport anyDate ''job1''
        (john\<lparr>email := ''not-an-email''\<rparr> # replicate 10 john) ''admin''
        (store0\<lparr>import_jobs := [pendingJob]\<rparr>)))
       = start @ progress @ fin
     \<and> (\<forall>v\<in>set (start @ progress). error_log v = None)
     \<and> length fin \<le> 1
     \<and> (\<forall>v\<in>set fin. terminal (status v) \<and> error_log v \<noteq> None)"
proof -
  let ?s = "store0\<lparr>import_jobs := [pendingJob]\<rparr>"
  let ?p = "processImport anyDate ''job1''
        (john\<lparr>email := ''not-an-email''\<rparr> # replicate 10 john) ''admin'' ?s"
  have r: "jobRows ''job1'' ?s = [pendingJob]"
    by (simp add: jobRows_def pendingJob_def)
  have v: "job_versions ?s = []" and e: "error_log pendingJob = None"
    by (simp_all add: store0_def pendingJob_def)
  have "?p = (fst ?p, snd ?p)" by simp
  from progress_writes_keep_error_log [OF r this] show ?thesis
    unfolding v e by (elim exE conjE) (intro exI conjI, simp_all)
qed

section \<open>The status of a job\<close>

lemma refuse_versions:
  assumes x: "jobRows j s1 = [x]" and r: "refuse j e msg s1 = (resp, outcome, s')"
  shows "job_versions s' = job_versions s1
         \<or> job_versions s' = job_versions s1 @ [refusedValues (tick s1) e x]"
proof -
  obtain a s2 where u: "updateJob j (refusedValues (tick s1) e) s1 = (a, s2)"
    by (cases "updateJob j (refusedValues (tick s1) e) s1")
  from r u have "s' = s2" by (cases a) (auto simp: refuse_def)
  moreover have "\<And>y. job_id (refusedValues (tick s1) e y) = job_id y"
    by (simp add: refusedValues_def)
  from grows_updateJob [OF this x u]
  have "job_versions s2 = job_versions s1
         \<or> job_versions s2 = job_versions s1 @ [refusedValues (tick s1) e x]"
    by (auto simp: grows_def)
  ultimately show ?thesis by simp
qed

text \<open>
  C2. For every submission, whatever the database answers: the versions of job rows
  persisted by the handler and by the run it starts all belong to one job, whose
  identifier no job had before; the first version is pending; and the sequence of their
  states moves forward, that is, no state is followed by an earlier one (pending before
  processing before completed or failed) and nothing is written after a terminal state.
\<close>

theorem job_status_moves_forward:
  assumes "postExcel dateParses req s = (resp, outcome, s')"
  shows "\<exists>new. job_versions s' = job_versions s @ new
           \<and> forward (map status new)
           \<and> (new \<noteq> [] \<longrightarrow> status (hd new) = Pending)
           \<and> (\<forall>v\<in>set new. job_id v = job_id (hd new)
                 \<and> job_id v \<notin> set (map job_id (import_jobs s)))"
proof -
  have none: ?thesis if "job_versions s' = job_versions s"
    using that by (intro exI [of _ "[]"]) simp
  have some: ?thesis
    if "job_versions s' = job_versions s @ x # rest" "status x = Pending"
      "forward (map status (x # rest))" "\<forall>v\<in>set (x # rest). job_id v = job_id x"
      "job_id x \<notin> set (map job_id (import_jobs s))" for x rest
    using that by (intro exI [of _ "x # rest"]) simp
  show ?thesis
  proof (cases "reqFile req")
    case None
    with assms have "s' = s" by (simp add: postExcel_def)
    then show ?thesis by (simp add: none)
  next
    case (Some f)
    show ?thesis
    proof (cases "truthy (reqUser req)")
      case False
      with assms Some have "s' = s" by (simp add: postExcel_def)
      then show ?thesis by (simp add: none)
    next
      case True
      obtain a s1 where ins: "insertJob (originalname f) (path f) (the (reqUser req)) s = (a, s1)"
        by (cases "insertJob (originalname f) (path f) (the (reqUser req)) s")
      from insertJob_versions [OF ins] show ?thesis
      proof
        assume n: "job_versions s1 = job_versions s \<and> (\<forall>job. a \<noteq> Val (Inr job))"
        with assms Some True ins have "s' = s1"
          by (auto simp: postExcel_def split: outcome.splits sum.splits)
        with n show ?thesis by (simp add: none)
      next
        assume "\<exists>job. a = Val (Inr job) \<and> job_versions s1 = job_versions s @ [job]
           \<and> jobRows (job_id job) s1 = [job] \<and> status job = Pending
           \<and> job_id job \<notin> set (map job_id (import_jobs s))"
        then obtain job where a: "a = Val (Inr job)"
          and v1: "job_versions s1 = job_versions s @ [job]"
          and x: "jobRows (job_id job) s1 = [job]" and st: "status job = Pending"
          and fresh: "job_id job \<notin> set (map job_id (import_jobs s))"
          by blast
        have refused: ?thesis if "refuse (job_id job) e msg s1 = (resp, outcome, s')" for e msg
        proof -
          from refuse_versions [OF x that] v1
          have "job_versions s' = job_versions s @ job # []
              \<or> job_versions s' = job_versions s @ job # [refusedValues (tick s1) e job]"
            by auto
          then show ?thesis
          proof
            assume "job_versions s' = job_versions s @ job # []"
            from this st _ _ fresh show ?thesis by (rule some) simp_all
          next
            assume "job_versions s' = job_versions s @ job # [refusedValues (tick s1) e job]"
            from this st _ _ fresh show ?thesis
              by (rule some) (simp_all add: refusedValues_def st terminal_def)
          qed
        qed
        show ?thesis
        proof (cases "parseExcelFile (content f)")
          case (Inl parseError)
          with assms Some True ins a show ?thesis
            by (intro refused) (simp add: postExcel_def)
        next
          case (Inr rows)
          show ?thesis
          proof (cases "length rows = 0 \<or> 5000 < length rows")
            case True
            with assms Some \<open>truthy (reqUser req)\<close> ins a Inr
            have "\<exists>e msg. refuse (job_id job) e msg s1 = (resp, outcome, s')"
              by (auto simp: postExcel_def split: if_splits)
            with refused show ?thesis by blast
          next
            case False
            with assms Some \<open>truthy (reqUser req)\<close> ins a Inr
            have "processImport dateParses (job_id job) rows (the (reqUser req)) s1
                    = (the outcome, s')"
              by (auto simp: postExcel_def split: prod.splits)
            with x obtain pre mid fin
              where g: "grows (job_id job) job s1 (pre @ mid @ fin) s'"
                and pre: "pre = [] \<or> pre = [job\<lparr>status := Processing,
                            started_at := Some (tick s1), total_records := length rows\<rparr>]"
                and mid: "\<forall>v\<in>set mid. onlyCounters (last (job # pre)) v"
                and fin: "fin = [] \<or> (\<exists>st rsf. (st = Completed \<or> st = Failed)
                      \<and> fin = [finalValues st rsf (last (job # pre @ mid))])"
              by (rule processImport_grows)
            from g v1 have "job_versions s' = job_versions s @ job # (pre @ mid @ fin)"
              by (simp add: grows_def)
            from this st run_versions_forward [OF st pre mid fin] fresh
            show ?thesis by (rule some)
          qed
        qed
      qed
    qed
  qed
qed

theorem job_status_moves_forward_witness:
  "forward (map status (job_versions (snd (snd (postExcel anyDate
      (requestOf [(1, headerCells), (3, janeCells)]) store0)))))
   \<and> map status (job_versions (snd (snd (postExcel anyDate
      (requestOf [(1, headerCells), (3, janeCells)]) store0))))
     = [Pending, Processing, Completed]"
proof -
  let ?p = "postExcel anyDate (requestOf [(1, headerCells), (3, janeCells)]) store0"
  have v: "job_versions store0 = []" by (simp add: store0_def)
  have "?p = (fst ?p, fst (snd ?p), snd (snd ?p))" by simp
  from job_status_moves_forward [OF this]
  have "forward (map status (job_versions (snd (snd ?p))))"
    unfolding v by auto
  moreover have "map status (job_versions (snd (snd ?p))) = [Pending, Processing, Completed]"
    by code_simp
  ultimately show ?thesis by simp
qed

section \<open>Family resolution\<close>

lemma calm_refl: "calm s s"
  by (simp add: calm_def sameJobs_def)

lemma calm_trans: "calm s s1 \<Longrightarrow> calm s1 s2 \<Longrightarrow> calm s s2"
  by (simp add: calm_def sameJobs_def)

lemma calm_tick: "calm s (s\<lparr>tick := t\<rparr>)"
  by (simp add: calm_def sameJobs_def)

lemma calm_quiet: "calm s s1 \<Longrightarrow> quiet s s1"
  by (simp add: calm_def quiet_def familiesKept_def)

lemma selectUser_calm: "calm s (snd (selectUser e p s))"
  by (simp add: selectUser_def request_def calm_tick split: response.splits)

lemma updateUser_calm: "calm s (snd (updateUser uid f s))"
  by (simp add: updateUser_def request_def calm_def sameJobs_def split: response.splits)

lemma insertUser_calm: "calm s (snd (insertUser f s))"
  by (simp add: insertUser_def request_def calm_def sameJobs_def Let_def split: response.splits)

lemma updateUserFamily_calm: "calm s (snd (updateUserFamily uid fid s))"
  by (simp add: updateUserFamily_def request_def calm_def sameJobs_def split: response.splits)

lemma updateFamilyHead_calm: "calm s (snd (updateFamilyHead fid uid s))"
  by (simp add: updateFamilyHead_def request_def calm_def sameJobs_def familyCore_head
      split: response.splits)

lemma upsertMembership_calm: "calm s (snd (upsertMembership gid uid s))"
  by (simp add: upsertMembership_def request_def calm_def sameJobs_def split: response.splits)

lemma selectUser_calmD: "selectUser e p s = (a, s1) \<Longrightarrow> calm s s1"
  using selectUser_calm [of s e p] by simp

lemma updateUser_calmD: "updateUser uid f s = (a, s1) \<Longrightarrow> calm s s1"
  using updateUser_calm [of s uid f] by simp

lemma insertUser_calmD: "insertUser f s = (a, s1) \<Longrightarrow> calm s s1"
  using insertUser_calm [of s f] by simp

lemma updateUserFamily_calmD: "updateUserFamily uid fid s = (a, s1) \<Longrightarrow> calm s s1"
  using updateUserFamily_calm [of s uid fid] by simp

lemma updateFamilyHead_calmD: "updateFamilyHead fid uid s = (a, s1) \<Longrightarrow> calm s s1"
  using updateFamilyHead_calm [of s fid uid] by simp

lemma upsertMembership_calmD: "upsertMembership gid uid s = (a, s1) \<Longrightarrow> calm s s1"
  using upsertMembership_calm [of s gid uid] by simp

lemma resolveMember_calm: "calm (db rs) (db (snd (resolveMember r n rs)))"
  by (auto simp: resolveMember_def pushError_def
      split: prod.splits outcome.splits option.splits sum.splits
      intro: selectUser_calmD
        calm_trans [OF selectUser_calmD updateUser_calmD]
        calm_trans [OF selectUser_calmD insertUser_calmD])

lemma linkFamily_calm: "linkFamily r uid fid s = (a, s1) \<Longrightarrow> calm s s1"
  by (auto simp: linkFamily_def calm_refl split: prod.splits outcome.splits if_splits
      intro: updateUserFamily_calmD
        calm_trans [OF updateUserFamily_calmD updateFamilyHead_calmD])

lemma upsertGroups_calm: "upsertGroups g uid names s = (a, s1) \<Longrightarrow> calm s s1"
proof (induction names arbitrary: s)
  case Nil
  then show ?case by (simp add: calm_refl)
next
  case (Cons n ns)
  show ?case
  proof (cases "truthy (g n)")
    case False
    with Cons show ?thesis by simp
  next
    case True
    obtain e s2 where u: "upsertMembership (the (g n)) uid s = (e, s2)"
      by (cases "upsertMembership (the (g n)) uid s")
    show ?thesis
    proof (cases e)
      case (Exn m)
      with Cons.prems True u have "s1 = s2" by simp
      with upsertMembership_calmD [OF u] show ?thesis by simp
    next
      case (Val x)
      with Cons.prems True u have "upsertGroups g uid ns s2 = (a, s1)" by simp
      from calm_trans [OF upsertMembership_calmD [OF u] Cons.IH [OF this]]
      show ?thesis .
    qed
  qed
qed

lemma handleGroups_calm: "handleGroups g r uid s = (a, s1) \<Longrightarrow> calm s s1"
  by (auto simp: handleGroups_def calm_refl split: if_splits intro: upsertGroups_calm)

lemma updateJob_families: "families (snd (updateJob j f s)) = families s"
  by (simp add: updateJob_def request_def split: response.splits)


lemma resolveFamily_hit:
  "familyMap rs (toLowerCase (familyName r)) = Some f \<Longrightarrow> f \<noteq> [] \<Longrightarrow>
     resolveFamily r n rs = (Next f, rs)"
  by (simp add: resolveFamily_def truthy_def)

lemma resolveFamily_memo:
  "fst (resolveFamily r n rs) = Next f \<longrightarrow> f \<noteq> [] \<longrightarrow>
     familyMap (snd (resolveFamily r n rs)) (toLowerCase (familyName r)) = Some f"
  by (auto simp: resolveFamily_def memoFamily_def truthy_def pushError_def
      split: prod.splits outcome.splits option.splits sum.splits)

lemma selectFamily_store: "snd (selectFamily name s) = s\<lparr>tick := Suc (tick s)\<rparr>"
  by (simp add: selectFamily_def request_def split: response.splits)

lemma insertFamily_created:
  "fst (insertFamily name a p s) = Val (Inr nf) \<longrightarrow>
     map familyCore (families (snd (insertFamily name a p s)))
       = map familyCore (families s) @ [(family_ident nf, name, a, Some p)]"
  by (auto simp: insertFamily_def request_def Let_def familyCore_def split: response.splits)

lemma resolveFamily_families:
  assumes "resolveFamily r n rs = (Next f, rs')"
  shows "map familyCore (families (db rs')) = map familyCore (families (db rs))
         \<or> map familyCore (families (db rs')) = map familyCore (families (db rs))
              @ [(f, familyName r, orUndefined (address r), Some (phone r))]"
proof (cases "truthy (familyMap rs (toLowerCase (familyName r)))")
  case True
  with assms show ?thesis by (simp add: resolveFamily_def)
next
  case False
  obtain a s1 where sf: "selectFamily (familyName r) (db rs) = (a, s1)"
    by (cases "selectFamily (familyName r) (db rs)")
  from selectFamily_store [of "familyName r" "db rs"] sf
  have s1: "families s1 = families (db rs)" by simp
  show ?thesis
  proof (cases a)
    case (Exn m)
    with assms False sf show ?thesis by (simp add: resolveFamily_def)
  next
    case (Val x)
    show ?thesis
    proof (cases x)
      case (Some existingFamily)
      with assms False sf Val have "db rs' = s1"
        by (auto simp: resolveFamily_def memoFamily_def)
      with s1 show ?thesis by simp
    next
      case None
      obtain b s2
        where i: "insertFamily (familyName r) (orUndefined (address r)) (phone r) s1 = (b, s2)"
        by (cases "insertFamily (familyName r) (orUndefined (address r)) (phone r) s1")
      from assms False sf Val None i obtain nf
        where "b = Val (Inr nf)" "family_ident nf = f" "db rs' = s2"
        by (auto simp: resolveFamily_def memoFamily_def pushError_def
            split: outcome.splits sum.splits if_splits)
      with insertFamily_created [of "familyName r" "orUndefined (address r)" "phone r" s1 nf] i s1
      show ?thesis by simp
    qed
  qed
qed

lemma familyOfRow_stages:
  assumes "familyOfRow dateParses r n rs = Some f"
  obtains uid rsm rsf where "validateRow dateParses r n = None"
    "resolveMember r n rs = (Next uid, rsm)" "resolveFamily r n rsm = (Next f, rsf)"
  using assms
  by (auto simp: familyOfRow_def split: option.splits prod.splits step.splits)

lemma resolveMember_run:
  assumes "resolveMember r n rs = (a, rsm)"
  shows "familyMap rsm = familyMap rs" and "calm (db rs) (db rsm)"
  using resolveMember_familyMap [of r n rs] resolveMember_calm [of rs r n] assms by simp_all


lemma tryRow_after_family:
  assumes v: "validateRow dateParses r n = None"
    and m: "resolveMember r n rs = (Next uid, rsm)"
    and f: "resolveFamily r n rsm = (Next fid, rsf)"
    and t: "tryRow dateParses g r n rs = (a, rs')"
  shows "a \<noteq> Continue \<and> familyMap rs' = familyMap rsf \<and> calm (db rsf) (db rs')"
proof -
  obtain c s3 where l: "linkFamily r uid fid (db rsf) = (c, s3)"
    by (cases "linkFamily r uid fid (db rsf)")
  note c3 = linkFamily_calm [OF l]
  show ?thesis
  proof (cases c)
    case (Exn x)
    with t v m f l have "a = Raised x" "rs' = rsf\<lparr>db := s3\<rparr>"
      by (auto simp: tryRow_def)
    with c3 show ?thesis by simp
  next
    case (Val u)
    obtain d s4 where h: "handleGroups g r uid s3 = (d, s4)"
      by (cases "handleGroups g r uid s3")
    from calm_trans [OF c3 handleGroups_calm [OF h]] have c4: "calm (db rsf) s4" .
    show ?thesis
    proof (cases d)
      case (Exn x)
      with t v m f l Val h have "a = Raised x" "rs' = rsf\<lparr>db := s4\<rparr>"
        by (auto simp: tryRow_def)
      with c4 show ?thesis by simp
    next
      case d: (Val u')
      with t v m f l Val h
      have "a = Next ()" "rs' = rsf\<lparr>db := s4, successCount := successCount rsf + 1\<rparr>"
        by (auto simp: tryRow_def)
      with c4 show ?thesis by simp
    qed
  qed
qed

lemma iteration_after_family:
  assumes fam: "familyOfRow dateParses r (i + 2) rs = Some f"
    and it: "iteration dateParses g j r i rs = (res, rs')"
  obtains uid rsm rsf where "resolveMember r (i + 2) rs = (Next uid, rsm)"
    "resolveFamily r (i + 2) rsm = (Next f, rsf)" "familyMap rs' = familyMap rsf"
    "map familyCore (families (db rs')) = map familyCore (families (db rsf))"
proof -
  from fam obtain uid rsm rsf where v: "validateRow dateParses r (i + 2) = None"
    and m: "resolveMember r (i + 2) rs = (Next uid, rsm)"
    and f: "resolveFamily r (i + 2) rsm = (Next f, rsf)"
    by (rule familyOfRow_stages)
  note after = tryRow_after_family [OF v m f]
  from it show thesis
  proof (cases rule: iteration_cases)
    case skipped
    from after [OF skipped(1)] show ?thesis by simp
  next
    case (counted a rs1)
    from after [OF counted(1)] counted(3,4)
    have "familyMap rs' = familyMap rsf"
      "map familyCore (families (db rs')) = map familyCore (families (db rsf))"
      by (simp_all add: calm_def)
    with m f show ?thesis by (rule that)
  next
    case (flushed a rs1 rs3 e)
    from updateJob_families [of j "progressValues rs3" "db rs3"] flushed(5)
    have "families (db rs') = families (db rs3)" by simp
    with after [OF flushed(1)] flushed(3,4)
    have "familyMap rs' = familyMap rsf"
      "map familyCore (families (db rs')) = map familyCore (families (db rsf))"
      by (simp_all add: calm_def)
    with m f show ?thesis by (rule that)
  qed
qed

lemma kept_refl: "kept rs rs"
  by (simp add: kept_def familiesKept_refl memoKept_refl)

lemma kept_trans: "kept rs rs1 \<Longrightarrow> kept rs1 rs2 \<Longrightarrow> kept rs rs2"
  by (auto simp: kept_def intro: familiesKept_trans memoKept_trans)

lemma steady_kept: "steady rs rs1 \<Longrightarrow> kept rs rs1"
  by (simp add: steady_def kept_def quiet_def)

lemma kept_same: "kept rs rs1 \<Longrightarrow> families (db rs2) = families (db rs1) \<Longrightarrow>
    familyMap rs2 = familyMap rs1 \<Longrightarrow> kept rs rs2"
  by (simp add: kept_def familiesKept_def)

lemma iteration_kept:
  assumes it: "iteration dateParses g j r i rs = (res, rs')"
  shows "kept rs rs'"
  using it
proof (cases rule: iteration_cases)
  case skipped
  from tryRow_steady [OF skipped(1)] show ?thesis by (rule steady_kept)
next
  case (counted a rs1)
  from steady_kept [OF tryRow_steady [OF counted(1)]] counted(3,4)
  show ?thesis by (auto intro: kept_same)
next
  case (flushed a rs1 rs3 e)
  from updateJob_families [of j "progressValues rs3" "db rs3"] flushed(5)
  have "families (db rs') = families (db rs3)" by simp
  with flushed(3) have "families (db rs') = families (db rs1)" by simp
  with steady_kept [OF tryRow_steady [OF flushed(1)]] flushed(4)
  show ?thesis by (auto intro: kept_same)
qed

lemma processRows_kept:
  "processRows dateParses g j i rows rs = (res, rs') \<Longrightarrow> kept rs rs'"
proof (induction rows arbitrary: i rs)
  case Nil
  then show ?case by (simp add: kept_refl)
next
  case (Cons r rows)
  obtain a rs1 where it: "iteration dateParses g j r i rs = (a, rs1)"
    by (cases "iteration dateParses g j r i rs")
  note k1 = iteration_kept [OF it]
  show ?case
  proof (cases a)
    case (Some m)
    with Cons.prems it have "rs' = rs1" by simp
    with k1 show ?thesis by simp
  next
    case None
    with Cons.prems it have "processRows dateParses g j (i + 1) rows rs1 = (res, rs')"
      by simp
    from kept_trans [OF k1 Cons.IH [OF this]] show ?thesis .
  qed
qed

text \<open>
  C7. Take a run in which a row \<open>r1\<close> is processed and its family stage yields the
  truthy identifier \<open>f\<close>, then any rows, then a row \<open>r2\<close> whose family name equals that
  of \<open>r1\<close> without regard to case. If the family stage of \<open>r2\<close> is reached, it yields
  \<open>f\<close> as well. The row \<open>r1\<close> adds at most one family to the store, and if it does, that
  family is \<open>f\<close> with the family name, the address and the phone of \<open>r1\<close>. From the end
  of \<open>r1\<close> to the end of \<open>r2\<close>, every stored family keeps its identifier, name, address
  and phone.
\<close>

theorem same_family_within_run:
  assumes it1: "iteration dateParses g j r1 i rs = (None, rs1)"
    and fam: "familyOfRow dateParses r1 (i + 2) rs = Some f" and tr: "f \<noteq> []"
    and between: "processRows dateParses g j k rows rs1 = (None, rs2)"
    and name: "toLowerCase (familyName r2) = toLowerCase (familyName r1)"
    and it2: "iteration dateParses g j r2 i2 rs2 = (res, rs3)"
  shows "(\<forall>f'. familyOfRow dateParses r2 (i2 + 2) rs2 = Some f' \<longrightarrow> f' = f)
         \<and> (map familyCore (families (db rs1)) = map familyCore (families (db rs))
            \<or> map familyCore (families (db rs1)) = map familyCore (families (db rs))
                 @ [(f, familyName r1, orUndefined (address r1), Some (phone r1))])
         \<and> familiesKept (db rs1) (db rs3)"
proof -
  from fam it1 obtain uid rsm rsf where m: "resolveMember r1 (i + 2) rs = (Next uid, rsm)"
    and f: "resolveFamily r1 (i + 2) rsm = (Next f, rsf)"
    and fm: "familyMap rs1 = familyMap rsf"
    and fc: "map familyCore (families (db rs1)) = map familyCore (families (db rsf))"
    by (rule iteration_after_family)
  from resolveFamily_memo [of r1 "i + 2" rsm f] f tr fm
  have memo1: "familyMap rs1 (toLowerCase (familyName r1)) = Some f" by simp
  from processRows_kept [OF between] memo1 tr name
  have memo2: "familyMap rs2 (toLowerCase (familyName r2)) = Some f"
    by (simp add: kept_def memoKept_def)
  have same: "f' = f" if "familyOfRow dateParses r2 (i2 + 2) rs2 = Some f'" for f'
  proof -
    from that obtain uid2 rsm2 rsf2
      where m2: "resolveMember r2 (i2 + 2) rs2 = (Next uid2, rsm2)"
        and f2: "resolveFamily r2 (i2 + 2) rsm2 = (Next f', rsf2)"
      by (rule familyOfRow_stages)
    from resolveMember_run(1) [OF m2] memo2
    have "familyMap rsm2 (toLowerCase (familyName r2)) = Some f" by simp
    from resolveFamily_hit [OF this tr, of "i2 + 2"] f2 show ?thesis by simp
  qed
  from resolveMember_run(2) [OF m] have "map familyCore (families (db rsm))
      = map familyCore (families (db rs))"
    by (simp add: calm_def)
  with resolveFamily_families [OF f] fc
  have created: "map familyCore (families (db rs1)) = map familyCore (families (db rs))
            \<or> map familyCore (families (db rs1)) = map familyCore (families (db rs))
                 @ [(f, familyName r1, orUndefined (address r1), Some (phone r1))]"
    by simp
  from kept_trans [OF processRows_kept [OF between] iteration_kept [OF it2]]
  have "familiesKept (db rs1) (db rs3)" by (simp add: kept_def)
  with same created show ?thesis by blast
qed


theorem same_family_within_run_witness:
  "familyOfRow anyDate john 2 (run0 store0) = Some ''id3''
   \<and> familyOfRow anyDate janeLower 4
        (snd (processRows anyDate (buildGroupMap (Some (groups store0))) ''job1'' 1 [jane]
           (snd (iteration anyDate (buildGroupMap (Some (groups store0))) ''job1'' john 0
              (run0 store0)))))
      = Some ''id3''"
proof -
  let ?g = "buildGroupMap (Some (groups store0))"
  let ?i1 = "iteration anyDate ?g ''job1'' john 0 (run0 store0)"
  let ?p = "processRows anyDate ?g ''job1'' 1 [jane] (snd ?i1)"
  let ?i2 = "iteration anyDate ?g ''job1'' janeLower 2 (snd ?p)"
  have "fst ?i1 = None" by code_simp
  then have it1: "?i1 = (None, snd ?i1)" by (metis prod.collapse)
  have fam: "familyOfRow anyDate john (0 + 2) (run0 store0) = Some ''id3''" by code_simp
  have tr: "''id3'' \<noteq> []" by simp
  have "fst ?p = None" by code_simp
  then have between: "?p = (None, snd ?p)" by (metis prod.collapse)
  have name: "toLowerCase (familyName janeLower) = toLowerCase (familyName john)" by code_simp
  have it2: "?i2 = (fst ?i2, snd ?i2)" by simp
  have fam2: "familyOfRow anyDate john 2 (run0 store0) = Some ''id3''" by code_simp
  have "familyOfRow anyDate janeLower 4 (snd ?p) \<noteq> None" by code_simp
  then obtain f' where f': "familyOfRow anyDate janeLower 4 (snd ?p) = Some f'" by blast
  have four: "(2::nat) + 2 = 4" by simp
  note c = same_family_within_run [OF it1 fam tr between name it2, THEN conjunct1]
  from c f' have "f' = ''id3''" unfolding four by blast
  with f' fam2 show ?thesis by blast
qed

section \<open>The matcher decides the language of a regular expression\<close>

lemma nullable_lang: "nullable r = ([] \<in> lang r)"
proof (induction r)
  case (AtLeast n a)
  show ?case
  proof
    assume "nullable (AtLeast n a)"
    then have "n = 0 \<or> [] \<in> lang a" using AtLeast by simp
    then show "[] \<in> lang (AtLeast n a)"
    proof
      assume "n = 0"
      then have "[] = concat [] \<and> n \<le> length ([] :: string list) \<and> set [] \<subseteq> lang a"
        by simp
      then show ?thesis unfolding lang.simps by blast
    next
      assume e: "[] \<in> lang a"
      have "[] = concat (replicate n []) \<and> n \<le> length (replicate n ([] :: string))
          \<and> set (replicate n []) \<subseteq> lang a"
        using e by (auto simp: concat_replicate_trivial)
      then show ?thesis unfolding lang.simps by blast
    qed
  next
    assume "[] \<in> lang (AtLeast n a)"
    then obtain ws where ws: "[] = concat ws" "n \<le> length ws" "set ws \<subseteq> lang a"
      by auto
    show "nullable (AtLeast n a)"
    proof (cases "n = 0")
      case True
      then show ?thesis by simp
    next
      case False
      with ws(2) obtain w ws' where "ws = w # ws'" by (cases ws) auto
      with ws(1,3) have "[] \<in> lang a" by auto
      with AtLeast show ?thesis by simp
    qed
  qed
qed (auto simp: conc_def)

lemma lang_seq: "lang (seq a b) = conc (lang a) (lang b)"
  by (induction a b rule: seq.induct) (auto simp: conc_def)

lemma lang_alt: "lang (alt a b) = lang a \<union> lang b"
  by (induction a b rule: alt.induct) auto

lemma concat_Cons_split:
  assumes "c # w = concat ws" and "set ws \<subseteq> L"
  shows "\<exists>u ws'. c # u \<in> L \<and> w = u @ concat ws' \<and> set ws' \<subseteq> L \<and> Suc (length ws') = length ws"
  using assms
proof (induction ws)
  case Nil
  then show ?case by simp
next
  case (Cons x xs)
  show ?case
  proof (cases x)
    case Nil
    with Cons.prems have "c # w = concat xs" and "set xs \<subseteq> L" and e: "[] \<in> L" by auto
    from Cons.IH [OF this(1,2)] obtain u ws'
      where 1: "c # u \<in> L" "w = u @ concat ws'" "set ws' \<subseteq> L" "Suc (length ws') = length xs"
      by blast
    have "w = u @ concat ([] # ws')" "set ([] # ws') \<subseteq> L"
      "Suc (length ([] # ws')) = length (x # xs)"
      using 1 e by simp_all
    with 1(1) show ?thesis by blast
  next
    case (Cons d u)
    with Cons.prems have "d = c" "w = u @ concat xs" "c # u \<in> L" "set xs \<subseteq> L" by auto
    then show ?thesis by auto
  qed
qed

lemma lang_deriv: "lang (deriv c r) = {w. c # w \<in> lang r}"
proof (induction r)
  case (Seq a b)
  have "{w. c # w \<in> conc (lang a) (lang b)}
      = conc {w. c # w \<in> lang a} (lang b) \<union> (if [] \<in> lang a then {w. c # w \<in> lang b} else {})"
    by (auto simp: conc_def Cons_eq_append_conv)
  with Seq show ?case
    by (simp add: lang_seq lang_alt nullable_lang)
next
  case (AtLeast n a)
  have "{w. c # w \<in> lang (AtLeast n a)} = conc {w. c # w \<in> lang a} (lang (AtLeast (n - 1) a))"
  proof (intro set_eqI iffI)
    fix w assume "w \<in> {w. c # w \<in> lang (AtLeast n a)}"
    then obtain ws where ws: "c # w = concat ws" "n \<le> length ws" "set ws \<subseteq> lang a"
      by auto
    from concat_Cons_split [OF ws(1,3)] obtain u ws'
      where 1: "c # u \<in> lang a" "w = u @ concat ws'" "set ws' \<subseteq> lang a"
        "Suc (length ws') = length ws"
      by blast
    from 1(4) ws(2) have "n - 1 \<le> length ws'" by simp
    with 1(3) have "concat ws' \<in> lang (AtLeast (n - 1) a)" by auto
    with 1(1,2) show "w \<in> conc {w. c # w \<in> lang a} (lang (AtLeast (n - 1) a))"
      by (auto simp: conc_def)
  next
    fix w assume "w \<in> conc {w. c # w \<in> lang a} (lang (AtLeast (n - 1) a))"
    then obtain u ws' where 2: "w = u @ concat ws'" "c # u \<in> lang a" "n - 1 \<le> length ws'"
      "set ws' \<subseteq> lang a"
      by (auto simp: conc_def)
    then have "c # w = concat ((c # u) # ws')" "n \<le> length ((c # u) # ws')"
      "set ((c # u) # ws') \<subseteq> lang a"
      by auto
    then have "c # w \<in> lang (AtLeast n a)" unfolding lang.simps by blast
    then show "w \<in> {w. c # w \<in> lang (AtLeast n a)}" by simp
  qed
  with AtLeast show ?case by (simp add: lang_seq)
qed (auto simp: lang_alt)

lemma test_lang: "test r s = (s \<in> lang r)"
  by (induction s arbitrary: r) (simp_all add: nullable_lang lang_deriv)

section \<open>The formats that the validators accept\<close>

lemma concat_singletons:
  "set ws \<subseteq> {[c] | c. P c} \<Longrightarrow> length (concat ws) = length ws \<and> list_all P (concat ws)"
  by (induction ws) auto

lemma lang_class_words:
  "{concat ws | ws. n \<le> length ws \<and> set ws \<subseteq> {[c] | c. P c}} = {w. n \<le> length w \<and> list_all P w}"
proof (intro set_eqI iffI)
  fix w assume "w \<in> {concat ws | ws. n \<le> length ws \<and> set ws \<subseteq> {[c] | c. P c}}"
  then obtain ws where "w = concat ws" "n \<le> length ws" "set ws \<subseteq> {[c] | c. P c}" by auto
  with concat_singletons [of ws P] show "w \<in> {w. n \<le> length w \<and> list_all P w}" by simp
next
  fix w assume "w \<in> {w. n \<le> length w \<and> list_all P w}"
  then have "w = concat (map (\<lambda>c. [c]) w)" "n \<le> length (map (\<lambda>c. [c]) w)"
    "set (map (\<lambda>c. [c]) w) \<subseteq> {[c] | c. P c}"
    by (auto simp: list_all_iff)
  then show "w \<in> {concat ws | ws. n \<le> length ws \<and> set ws \<subseteq> {[c] | c. P c}}" by blast
qed

lemma lang_AtLeast_OneOf:
  "lang (AtLeast n (OneOf cs)) = {w. n \<le> length w \<and> list_all (\<lambda>c. list_ex (inClass c) cs) w}"
  using lang_class_words [of n "\<lambda>c. list_ex (inClass c) cs"] by simp

lemma lang_AtLeast_NoneOf:
  "lang (AtLeast n (NoneOf cs)) = {w. n \<le> length w \<and> list_all (\<lambda>c. \<not> list_ex (inClass c) cs) w}"
  using lang_class_words [of n "\<lambda>c. \<not> list_ex (inClass c) cs"] by simp

lemma concI: "u \<in> A \<Longrightarrow> v \<in> B \<Longrightarrow> u @ v \<in> conc A B"
  by (auto simp: conc_def)

lemma concE:
  assumes "w \<in> conc A B"
  obtains u v where "w = u @ v" "u \<in> A" "v \<in> B"
  using assms by (auto simp: conc_def)

lemma lang_literal: "lang (OneOf [Lit c]) = {[c]}"
  by auto

lemma plain_words:
  "lang (AtLeast 1 (NoneOf [Space, Lit CHR ''@''])) = {w. w \<noteq> [] \<and> list_all plainChar w}"
proof -
  have f: "(\<lambda>c. \<not> list_ex (inClass c) [Space, Lit CHR ''@'']) = plainChar"
    by (rule ext) (simp add: plainChar_def)
  have g: "(1 \<le> length w) = (w \<noteq> [])" for w :: string
    by (cases w) simp_all
  show ?thesis by (simp only: lang_AtLeast_NoneOf f g)
qed

lemma validateEmail_shape: "validateEmail e = emailShape e"
proof -
  let ?P = "{w. w \<noteq> [] \<and> list_all plainChar w}"
  have l: "lang emailRegex = conc ?P (conc {''@''} (conc ?P (conc {''.''} ?P)))"
    by (simp only: emailRegex_def lang.simps(5) plain_words lang_literal)
  have "(e \<in> lang emailRegex) = emailShape e"
  proof
    assume "e \<in> lang emailRegex"
    then have "e \<in> conc ?P (conc {''@''} (conc ?P (conc {''.''} ?P)))" by (simp only: l)
    then obtain local v1 where 1: "e = local @ v1" "local \<in> ?P"
      "v1 \<in> conc {''@''} (conc ?P (conc {''.''} ?P))" by (rule concE)
    from 1(3) obtain x v2 where 2: "v1 = x @ v2" "x \<in> {''@''}" "v2 \<in> conc ?P (conc {''.''} ?P)"
      by (rule concE)
    from 2(3) obtain a v3 where 3: "v2 = a @ v3" "a \<in> ?P" "v3 \<in> conc {''.''} ?P"
      by (rule concE)
    from 3(3) obtain y b where 4: "v3 = y @ b" "y \<in> {''.''}" "b \<in> ?P"
      by (rule concE)
    from 1 2 3 4 have "e = local @ ''@'' @ a @ ''.'' @ b \<and> local \<noteq> [] \<and> a \<noteq> [] \<and> b \<noteq> []
        \<and> list_all plainChar local \<and> list_all plainChar a \<and> list_all plainChar b"
      by simp
    then show "emailShape e" unfolding emailShape_def by blast
  next
    assume "emailShape e"
    then obtain local a b where e: "e = local @ ''@'' @ a @ ''.'' @ b"
      and p: "local \<in> ?P" "a \<in> ?P" "b \<in> ?P"
      unfolding emailShape_def by blast
    have "local @ ''@'' @ a @ ''.'' @ b \<in> conc ?P (conc {''@''} (conc ?P (conc {''.''} ?P)))"
      by (intro concI p) simp_all
    then show "e \<in> lang emailRegex" by (simp only: l e)
  qed
  then show ?thesis by (simp add: validateEmail_def test_lang)
qed

lemma phone_words:
  "lang (AtLeast 10 (OneOf [Digit, Space, Lit CHR ''-'', Lit CHR ''('', Lit CHR '')'']))
     = {w. 10 \<le> length w \<and> list_all phoneChar w}"
proof -
  have f: "(\<lambda>c. list_ex (inClass c) [Digit, Space, Lit CHR ''-'', Lit CHR ''('', Lit CHR '')''])
      = phoneChar"
    by (rule ext) (simp add: phoneChar_def)
  show ?thesis by (simp only: lang_AtLeast_OneOf f)
qed

lemma plus_not_phoneChar: "\<not> phoneChar CHR ''+''"
  by (simp add: phoneChar_def isDigit_def isSpace_def)

lemma validatePhone_shape: "validatePhone p = phoneShape p"
proof -
  let ?B = "{w. 10 \<le> length w \<and> list_all phoneChar w}"
  have l: "lang phoneRegex = conc (insert [] {''+''}) ?B"
    by (simp only: phoneRegex_def lang.simps(5,7) phone_words lang_literal)
  have b: "(phoneBody p \<in> ?B) = phoneShape p"
    by (simp add: phoneShape_def)
  have "(p \<in> lang phoneRegex) = (phoneBody p \<in> ?B)"
  proof
    assume "p \<in> lang phoneRegex"
    then have "p \<in> conc (insert [] {''+''}) ?B" by (simp only: l)
    then obtain u v where 1: "p = u @ v" "u \<in> insert [] {''+''}" "v \<in> ?B" by (rule concE)
    from 1(2) show "phoneBody p \<in> ?B"
    proof
      assume "u = []"
      with 1 have "p \<in> ?B" by simp
      then have "p \<noteq> [] \<and> phoneChar (hd p)" by (cases p) auto
      with plus_not_phoneChar have "phoneBody p = p"
        by (cases p) (auto simp: phoneBody_def)
      with \<open>p \<in> ?B\<close> show ?thesis by simp
    next
      assume "u \<in> {''+''}"
      with 1 have "phoneBody p = v" by (simp add: phoneBody_def)
      with 1(3) show ?thesis by simp
    qed
  next
    assume a: "phoneBody p \<in> ?B"
    show "p \<in> lang phoneRegex"
    proof (cases "phoneBody p = p")
      case True
      with a have "[] @ p \<in> conc (insert [] {''+''}) ?B" by (intro concI) simp_all
      then show ?thesis by (simp add: l)
    next
      case False
      then have "p = ''+'' @ phoneBody p"
        by (cases p) (auto simp: phoneBody_def split: if_splits)
      moreover from a have "''+'' @ phoneBody p \<in> conc (insert [] {''+''}) ?B"
        by (intro concI) simp_all
      ultimately show ?thesis by (simp only: l)
    qed
  qed
  with b show ?thesis by (simp add: validatePhone_def test_lang)
qed

lemma truthy_present: "truthy x = present x"
  by (cases x) (simp_all add: truthy_def present_def)

section \<open>The row validator\<close>

text \<open>
  C5, as the code has it. For every row and row number, \<open>validateRow\<close> runs the checks
  in the fixed order required fields (first name, last name, email, phone, family name),
  email format (the shape local@domain), phone format (an optional leading plus sign,
  then at least 10 characters, each a digit, white space, a hyphen or a parenthesis),
  blood group in the fixed set of eight, date of birth parseable, gender one of Male,
  Female, Other, the last three only for a field that is present. It returns the one
  error entry of the first check that is violated, carrying the row number and the row,
  and returns no error exactly when every check passes. It is a function of the row, the
  row number and the date parser alone: it has no access to the store.
\<close>

theorem validateRow_first_violation:
  "validateRow dateParses r n =
     map_option (\<lambda>msg. \<lparr>row = n, error = msg, data = RowData r\<rparr>)
       (firstViolation (codeChecks dateParses r))
   \<and> (validateRow dateParses r n = None) = list_all fst (codeChecks dateParses r)"
  by (simp add: validateRow_def codeChecks_def orderedChecks_def firstViolation_def rowError_def
      validateBloodGroup_def validateDate_def validateEmail_shape validatePhone_shape
      truthy_present validGroups_def validGenders_def)

theorem validateRow_first_violation_witness:
  "validateRow anyDate (john\<lparr>bloodGroup := Some ''Z+''\<rparr>) 2 =
     Some \<lparr>row = 2, error = ''Invalid blood group'',
           data = RowData (john\<lparr>bloodGroup := Some ''Z+''\<rparr>)\<rparr>
   \<and> validateRow anyDate (john\<lparr>bloodGroup := Some ''AB+''\<rparr>) 2 = None
   \<and> validateRow anyDate (john\<lparr>phone := ''12345''\<rparr>) 2 =
     Some \<lparr>row = 2, error = ''Invalid phone number format'',
           data = RowData (john\<lparr>phone := ''12345''\<rparr>)\<rparr>"
proof -
  have e: "emailShape ''john.doe@email.com''"
    unfolding validateEmail_shape [symmetric]
    by (simp add: validateEmail_def emailRegex_def isSpace_def)
  have p: "phoneShape ''+1234567890''" "\<not> phoneShape ''12345''"
    by (simp_all add: phoneShape_def phoneBody_def phoneChar_def isDigit_def)
  show ?thesis
    using validateRow_first_violation [of anyDate "john\<lparr>bloodGroup := Some ''Z+''\<rparr>" 2]
      validateRow_first_violation [of anyDate "john\<lparr>bloodGroup := Some ''AB+''\<rparr>" 2]
      validateRow_first_violation [of anyDate "john\<lparr>phone := ''12345''\<rparr>" 2]
    by (simp add: codeChecks_def orderedChecks_def firstViolation_def john_def anyDate_def
        present_def e p)
qed

text \<open>
  C5, as claimed, takes the phone format of the specification, which asks for at least
  10 digits. The phone number \<^verbatim>\<open>123-456-789\<close> has nine digits among its eleven
  characters: the first violated check of the specification is the phone format, and
  \<open>validateRow\<close> returns no error.
\<close>

theorem nine_digit_phone_passes:
  "firstViolation (specChecks anyDate (john\<lparr>phone := ''123-456-789''\<rparr>))
     = Some ''Invalid phone number format''
   \<and> validateRow anyDate (john\<lparr>phone := ''123-456-789''\<rparr>) 2 = None"
proof -
  have e: "emailShape ''john.doe@email.com''"
    unfolding validateEmail_shape [symmetric]
    by (simp add: validateEmail_def emailRegex_def isSpace_def)
  have "\<not> specPhone ''123-456-789''"
    by (simp add: specPhone_def phoneBody_def isDigit_def)
  with e have "firstViolation (specChecks anyDate (john\<lparr>phone := ''123-456-789''\<rparr>))
     = Some ''Invalid phone number format''"
    by (simp add: specChecks_def orderedChecks_def firstViolation_def john_def)
  moreover have "validateRow anyDate (john\<lparr>phone := ''123-456-789''\<rparr>) 2 = None"
    by code_simp
  ultimately show ?thesis by simp
qed

end
